theory Spec2Isabelle
  imports Main "HOL-Library.Sublist"
begin

section \<open>Python strings and the string operations the pipeline uses\<close>

text \<open>
  A Python \<open>str\<close> is a sequence of Unicode code points; a code point is modelled as a
  natural number, so that \<open>str.strip\<close>, \<open>\s\<close> and the curly quotes of the upload
  cleaner see the characters Python sees (and not UTF-8 bytes).
\<close>

type_synonym pystr = "nat list"

definition str :: "string \<Rightarrow> pystr" where
  "str s = map of_char s"

text \<open>
  \<open>str.isspace\<close> on one character: the table of CPython's \<open>_PyUnicode_IsWhitespace\<close>.
  \<open>str.strip()\<close>, \<open>str.split()\<close> and the class \<open>\s\<close> of a \<open>str\<close> pattern all use it.
\<close>

definition isspace :: "nat \<Rightarrow> bool" where
  "isspace c \<longleftrightarrow>
     (0x09 \<le> c \<and> c \<le> 0x0D) \<or> (0x1C \<le> c \<and> c \<le> 0x20) \<or> c = 0x85 \<or> c = 0xA0 \<or>
     c = 0x1680 \<or> (0x2000 \<le> c \<and> c \<le> 0x200A) \<or> c = 0x2028 \<or> c = 0x2029 \<or>
     c = 0x202F \<or> c = 0x205F \<or> c = 0x3000"

definition strip :: "pystr \<Rightarrow> pystr" where
  "strip s = rev (dropWhile isspace (rev (dropWhile isspace s)))"

text \<open>\<open>s.split(sep)\<close> for a separator of one character: always at least one piece.\<close>

fun split_on :: "nat \<Rightarrow> pystr \<Rightarrow> pystr list" where
  "split_on sep [] = [[]]"
| "split_on sep (c # cs) =
     (if c = sep then [] # split_on sep cs
      else (case split_on sep cs of [] \<Rightarrow> [[c]] | l # ls \<Rightarrow> (c # l) # ls))"

fun join :: "pystr \<Rightarrow> pystr list \<Rightarrow> pystr" where
  "join sep [] = []"
| "join sep [x] = x"
| "join sep (x # y # ys) = x @ sep @ join sep (y # ys)"

text \<open>
  \<open>s.replace(old, new)\<close>: the occurrences of \<open>old\<close> are found from the left and do not
  overlap. \<open>replace_ne\<close> is the scan for a non-empty \<open>old\<close>; with an empty \<open>old\<close> Python
  puts \<open>new\<close> before every character and at the end.
\<close>

function replace_ne :: "pystr \<Rightarrow> pystr \<Rightarrow> pystr \<Rightarrow> pystr" where
  "replace_ne old new [] = []"
| "replace_ne old new (c # cs) =
     (if old \<noteq> [] \<and> prefix old (c # cs)
      then new @ replace_ne old new (drop (length old) (c # cs))
      else c # replace_ne old new cs)"
  by pat_completeness auto
termination
  by (relation "measure (\<lambda>(old, new, s). length s)") (auto simp: neq_Nil_conv)

definition replace :: "pystr \<Rightarrow> pystr \<Rightarrow> pystr \<Rightarrow> pystr" where
  "replace old new s =
     (if old = [] then new @ concat (map (\<lambda>c. c # new) s) else replace_ne old new s)"

text \<open>\<open>sub in s\<close> on strings.\<close>

fun contains :: "pystr \<Rightarrow> pystr \<Rightarrow> bool" where
  "contains sub [] = (sub = [])"
| "contains sub (c # cs) = (prefix sub (c # cs) \<or> contains sub cs)"

section \<open>The cleaner of the flat-file path (legacy/chunk_txt_to_csv.py)\<close>

text \<open>
  The loop \<open>while "  " in text: text = text.replace("  ", " ")\<close>. Every round shortens
  the text, so the loop ends.
\<close>

function collapse_double_spaces :: "pystr \<Rightarrow> pystr" where
  "collapse_double_spaces t =
     (if contains [0x20, 0x20] t then collapse_double_spaces (replace [0x20, 0x20] [0x20] t)
      else t)"
  by pat_completeness auto
termination
proof (relation "measure length")
  show "wf (measure (length :: pystr \<Rightarrow> nat))" by simp
next
  fix t :: pystr
  assume c: "contains [0x20, 0x20] t"
  have le: "length (replace_ne [0x20, 0x20] [0x20] s) \<le> length s" for s :: pystr
  proof (induction s rule: length_induct)
    case (1 s)
    show ?case
    proof (cases s)
      case Nil
      then show ?thesis by simp
    next
      case (Cons a as)
      show ?thesis
      proof (cases "prefix [0x20, 0x20] (a # as)")
        case True
        then obtain r where r: "as = 0x20 # r" by (cases as) auto
        have "length (replace_ne [0x20, 0x20] [0x20] r) \<le> length r"
          using "1.IH" Cons r by simp
        then show ?thesis using Cons r True by simp
      next
        case False
        have "length (replace_ne [0x20, 0x20] [0x20] as) \<le> length as"
          using "1.IH" Cons by simp
        then show ?thesis using Cons False by auto
      qed
    qed
  qed
  have lt: "contains [0x20, 0x20] s \<Longrightarrow> length (replace_ne [0x20, 0x20] [0x20] s) < length s"
    for s :: pystr
  proof (induction s)
    case Nil
    then show ?case by simp
  next
    case (Cons a as)
    show ?case
    proof (cases "prefix [0x20, 0x20] (a # as)")
      case True
      then obtain r where r: "as = 0x20 # r" by (cases as) auto
      show ?thesis using le [of r] r True by simp
    next
      case False
      then have "contains [0x20, 0x20] as" using Cons.prems by auto
      then show ?thesis using Cons.IH False by auto
    qed
  qed
  show "(replace [0x20, 0x20] [0x20] t, t) \<in> measure length"
    using lt [OF c] by (simp add: replace_def)
qed

declare collapse_double_spaces.simps [simp del]

definition legacy_clean_text :: "pystr option \<Rightarrow> pystr" where
  "legacy_clean_text txt =
     (case txt of
        None \<Rightarrow> []
      | Some text0 \<Rightarrow>
          let text1 = replace [0x0D] [0x0A] (replace [0x0D, 0x0A] [0x0A] text0);
              lines = map strip (split_on 0x0A text1);
              lines' = filter (\<lambda>line. line \<noteq> []) lines;
              text2 = join [0x20] lines';
              text3 = collapse_double_spaces text2
          in strip text3)"

section \<open>The cleaner of the upload path (notebooks/upload_chunks.py)\<close>

text \<open>
  The class \<open>\d\<close> of a \<open>str\<close> pattern is the Unicode category Nd: blocks of ten digits
  starting at the code points below, and the mathematical digits U+1D7CE to U+1D7FF
  (Unicode 15.0, the table of CPython 3.12).
\<close>

definition decimal_blocks :: "nat list" where
  "decimal_blocks =
     [0x0030, 0x0660, 0x06F0, 0x07C0, 0x0966, 0x09E6, 0x0A66, 0x0AE6, 0x0B66, 0x0BE6,
      0x0C66, 0x0CE6, 0x0D66, 0x0DE6, 0x0E50, 0x0ED0, 0x0F20, 0x1040, 0x1090, 0x17E0,
      0x1810, 0x1946, 0x19D0, 0x1A80, 0x1A90, 0x1B50, 0x1BB0, 0x1C40, 0x1C50, 0xA620,
      0xA8D0, 0xA900, 0xA9D0, 0xA9F0, 0xAA50, 0xABF0, 0xFF10, 0x104A0, 0x10D30, 0x11066,
      0x110F0, 0x11136, 0x111D0, 0x112F0, 0x11450, 0x114D0, 0x11650, 0x116C0, 0x11730,
      0x118E0, 0x11950, 0x11C50, 0x11D50, 0x11DA0, 0x11F50, 0x16A60, 0x16AC0, 0x16B50,
      0x1E140, 0x1E2F0, 0x1E4F0, 0x1E950, 0x1FBF0]"

definition unicode_decimal :: "nat \<Rightarrow> bool" where
  "unicode_decimal c \<longleftrightarrow>
     list_ex (\<lambda>b. b \<le> c \<and> c < b + 10) decimal_blocks \<or> (0x1D7CE \<le> c \<and> c \<le> 0x1D7FF)"

text \<open>
  A letter of the pattern under \<open>re.IGNORECASE\<close>: \<open>p\<close> is the lower-case ASCII letter of
  the pattern; for the letters of \<open>page\<close> and \<open>of\<close> the only characters whose lower case
  is \<open>p\<close> are the letter and its ASCII capital.
\<close>

definition ci_letter :: "nat \<Rightarrow> nat \<Rightarrow> bool" where
  "ci_letter p c \<longleftrightarrow> c = p \<or> c + 0x20 = p"

fun match_literal_ci :: "pystr \<Rightarrow> pystr \<Rightarrow> pystr option" where
  "match_literal_ci [] s = Some s"
| "match_literal_ci (p # ps) [] = None"
| "match_literal_ci (p # ps) (c # cs) =
     (if ci_letter p c then match_literal_ci ps cs else None)"

definition match_plus :: "(nat \<Rightarrow> bool) \<Rightarrow> pystr \<Rightarrow> pystr option" where
  "match_plus P s = (case s of [] \<Rightarrow> None | c # cs \<Rightarrow> if P c then Some (dropWhile P cs) else None)"

text \<open>
  One attempt of \<open>PAGE_MARKER_PATTERN = page\s*\d+\s*of\s*\d+\<close> at the head of \<open>s\<close>;
  the result is the text after the match. The greedy repetitions never give a character
  back: what follows \<open>\s*\<close> is a digit or a letter, what follows \<open>\d+\<close> is white space or
  a letter, so a shorter repetition would leave a character the next item refuses.
\<close>

definition match_page_marker :: "pystr \<Rightarrow> pystr option" where
  "match_page_marker s =
     Option.bind (match_literal_ci (str ''page'') s) (\<lambda>r1.
     Option.bind (match_plus unicode_decimal (dropWhile isspace r1)) (\<lambda>r2.
     Option.bind (match_literal_ci (str ''of'') (dropWhile isspace r2)) (\<lambda>r3.
     match_plus unicode_decimal (dropWhile isspace r3))))"

text \<open>\<open>PAGE_MARKER_PATTERN.sub(" ", text)\<close>: the matches from the left, each replaced by a space.\<close>

function sub_page_marker :: "pystr \<Rightarrow> pystr" where
  "sub_page_marker [] = []"
| "sub_page_marker (c # cs) =
     (case match_page_marker (c # cs) of
        Some rest \<Rightarrow> 0x20 # sub_page_marker rest
      | None \<Rightarrow> c # sub_page_marker cs)"
  by pat_completeness auto
termination
proof (relation "measure length")
  show "wf (measure (length :: pystr \<Rightarrow> nat))" by simp
next
  fix c :: nat and cs rest :: pystr
  assume m: "match_page_marker (c # cs) = Some rest"
  have lit: "match_literal_ci ps s = Some r \<Longrightarrow> length r \<le> length s" for ps s r
    by (induction ps s rule: match_literal_ci.induct) (auto split: if_splits)
  have plus: "match_plus P s = Some r \<Longrightarrow> length r < length s" for P s r
    by (auto simp: match_plus_def less_Suc_eq_le length_dropWhile_le
        split: list.splits if_splits)
  have dw: "length (dropWhile P s) \<le> length s" for P and s :: pystr
    by (rule length_dropWhile_le)
  from m obtain r1 r2 r3 where
    r1: "match_literal_ci (str ''page'') (c # cs) = Some r1" and
    r2: "match_plus unicode_decimal (dropWhile isspace r1) = Some r2" and
    r3: "match_literal_ci (str ''of'') (dropWhile isspace r2) = Some r3" and
    r4: "match_plus unicode_decimal (dropWhile isspace r3) = Some rest"
    by (auto simp: match_page_marker_def Option.bind_eq_Some_conv)
  have "length rest < length (dropWhile isspace r3)" using plus [OF r4] .
  also have "\<dots> \<le> length r3" by (rule dw)
  also have "\<dots> \<le> length (dropWhile isspace r2)" using lit [OF r3] .
  also have "\<dots> \<le> length r2" by (rule dw)
  also have "\<dots> \<le> length (dropWhile isspace r1)" using plus [OF r2] by simp
  also have "\<dots> \<le> length r1" by (rule dw)
  also have "\<dots> \<le> length (c # cs)" using lit [OF r1] .
  finally show "(rest, c # cs) \<in> measure length" by simp
next
  fix c :: nat and cs :: pystr
  show "(cs, c # cs) \<in> measure length" by simp
qed

text \<open>
  \<open>OCR_JUNK_PATTERN = [^A-Za-z0-9\s.,;:!?'\-()/]\<close>: \<open>allowed_char\<close> is the class that is
  negated, and \<open>OCR_JUNK_PATTERN.sub(" ", text)\<close> puts a space for every other character.
\<close>

definition allowed_char :: "nat \<Rightarrow> bool" where
  "allowed_char c \<longleftrightarrow>
     (0x41 \<le> c \<and> c \<le> 0x5A) \<or> (0x61 \<le> c \<and> c \<le> 0x7A) \<or> (0x30 \<le> c \<and> c \<le> 0x39) \<or>
     isspace c \<or>
     c \<in> set [0x2E, 0x2C, 0x3B, 0x3A, 0x21, 0x3F, 0x27, 0x2D, 0x28, 0x29, 0x2F]"

definition sub_ocr_junk :: "pystr \<Rightarrow> pystr" where
  "sub_ocr_junk s = map (\<lambda>c. if allowed_char c then c else 0x20) s"

text \<open>\<open>re.sub(r"\s+", " ", text)\<close>: every maximal run of white space becomes one space.\<close>

function collapse_whitespace :: "pystr \<Rightarrow> pystr" where
  "collapse_whitespace [] = []"
| "collapse_whitespace (c # cs) =
     (if isspace c then 0x20 # collapse_whitespace (dropWhile isspace cs)
      else c # collapse_whitespace cs)"
  by pat_completeness auto
termination
  by (relation "measure length") (auto simp: less_Suc_eq_le length_dropWhile_le)

text \<open>
  The curly quotes are U+2019, U+201C and U+201D; the straight ones U+0027 and U+0022.
  The steps are in the order of the source.
\<close>

definition upload_clean_text :: "pystr option \<Rightarrow> pystr" where
  "upload_clean_text txt =
     (case txt of
        None \<Rightarrow> []
      | Some text0 \<Rightarrow>
          let text1 = replace [0x0D] [0x0A] (replace [0x0D, 0x0A] [0x0A] text0);
              text2 = replace [0x0C] [0x20] text1;
              lines = map strip (split_on 0x0A text2);
              lines' = filter (\<lambda>line. line \<noteq> []) lines;
              text3 = join [0x20] lines';
              text4 = sub_page_marker text3;
              text5 = sub_ocr_junk text4;
              text6 = replace [0x201D] [0x22]
                        (replace [0x201C] [0x22] (replace [0x2019] [0x27] text5));
              text7 = collapse_whitespace text6
          in strip text7)"

section \<open>Errors, the tokenizer and the configuration\<close>

datatype error = ValueError | IndexError | RuntimeError

text \<open>
  The tokenizer (tiktoken's \<open>cl100k_base\<close>) is an external library: the program uses only
  \<open>encoding.encode\<close> and \<open>encoding.decode\<close>, which are the two fields below. Token
  identifiers are natural numbers.
\<close>

record tokenizer =
  encode :: "pystr \<Rightarrow> nat list"
  decode :: "nat list \<Rightarrow> pystr"

text \<open>
  The module-level constants. Both modules set 350, 70 and 220; \<open>MAX_BYTES\<close> belongs to
  the flat-file writer and \<open>MIN_WORDS_PER_DOC\<close> to the upload path.
\<close>

record config =
  CHUNK_SIZE_TOKENS :: int
  CHUNK_OVERLAP_TOKENS :: int
  MIN_DOC_TOKENS_SINGLE_CHUNK :: int
  MIN_WORDS_PER_DOC :: int
  MAX_BYTES :: int

definition source_config :: config where
  "source_config =
     \<lparr>CHUNK_SIZE_TOKENS = 350, CHUNK_OVERLAP_TOKENS = 70, MIN_DOC_TOKENS_SINGLE_CHUNK = 220,
      MIN_WORDS_PER_DOC = 5, MAX_BYTES = 9 * 1024 * 1024\<rparr>"

section \<open>The chunker: \<open>split_into_token_chunks\<close> (the same in both modules)\<close>

text \<open>A bound of a Python slice on a sequence of length \<open>n\<close>: negative bounds count from the end.\<close>

definition slice_bound :: "nat \<Rightarrow> int \<Rightarrow> nat" where
  "slice_bound n i = (if i < 0 then nat (int n + i) else min n (nat i))"

definition slice :: "'a list \<Rightarrow> int \<Rightarrow> int \<Rightarrow> 'a list" where
  "slice xs lo hi =
     (let a = slice_bound (length xs) lo; b = slice_bound (length xs) hi
      in take (b - a) (drop a xs))"

text \<open>
  \<open>range(start, stop, step)\<close> for a positive step, as the loop runs it. The chunker has
  already raised when the step is not positive, so the case \<open>step = 0\<close> is never reached.
\<close>

function range_from :: "nat \<Rightarrow> nat \<Rightarrow> nat \<Rightarrow> nat list" where
  "range_from start stop step =
     (if 0 < step \<and> start < stop then start # range_from (start + step) stop step else [])"
  by pat_completeness auto
termination
  by (relation "measure (\<lambda>(start, stop, step). stop - start)") auto

declare range_from.simps [simp del]

text \<open>The windows of tokens the loop keeps: \<open>tokens[start:end]\<close> for each start, the empty ones skipped.\<close>

definition token_windows :: "nat list \<Rightarrow> int \<Rightarrow> nat \<Rightarrow> nat list list" where
  "token_windows tokens chunk_size step =
     filter (\<lambda>chunk_tokens. chunk_tokens \<noteq> [])
       (map (\<lambda>start. slice tokens (int start) (int start + chunk_size))
            (range_from 0 (length tokens) step))"

text \<open>
  The generator yields nothing before it raises, so its outcome is either the error or the
  list of the chunks.
\<close>

definition split_into_token_chunks :: "tokenizer \<Rightarrow> pystr \<Rightarrow> int \<Rightarrow> int \<Rightarrow> error + pystr list" where
  "split_into_token_chunks tk text chunk_size chunk_overlap =
     (let tokens = encode tk text in
      if tokens = [] then Inr []
      else
        let step = chunk_size - chunk_overlap in
        if step \<le> 0 then Inl ValueError
        else Inr (map (decode tk) (token_windows tokens chunk_size (nat step))))"

section \<open>Paths and identifiers: \<open>derive_ids_from_path\<close> (the same in both modules)\<close>

text \<open>
  A \<open>pathlib.Path\<close>: the anchor (drive and root) and the components below it. \<open>name\<close> is
  the last component, or the empty string; \<open>parent\<close> drops it; \<open>stem\<close> is the name without
  its last suffix (a dot that is neither the first nor the last character of the name).
\<close>

record path =
  anchor :: pystr
  parts :: "pystr list"

definition path_name :: "path \<Rightarrow> pystr" where
  "path_name p = (case rev (parts p) of [] \<Rightarrow> [] | n # _ \<Rightarrow> n)"

definition path_parent :: "path \<Rightarrow> path" where
  "path_parent p = p\<lparr>parts := butlast (parts p)\<rparr>"

fun rfind :: "nat \<Rightarrow> pystr \<Rightarrow> int" where
  "rfind c [] = - 1"
| "rfind c (x # xs) =
     (let r = rfind c xs in if 0 \<le> r then r + 1 else if x = c then 0 else - 1)"

definition path_stem :: "path \<Rightarrow> pystr" where
  "path_stem p =
     (let name = path_name p; i = rfind 0x2E name
      in if 0 < i \<and> i < int (length name) - 1 then take (nat i) name else name)"

text \<open>\<open>xs[i]\<close>: a negative index counts from the end, an index out of range raises.\<close>

definition item :: "'a list \<Rightarrow> int \<Rightarrow> error + 'a" where
  "item xs i =
     (if 0 \<le> i \<and> i < int (length xs) then Inr (xs ! nat i)
      else if i < 0 \<and> - int (length xs) \<le> i then Inr (xs ! nat (int (length xs) + i))
      else Inl IndexError)"

definition derive_ids_from_path :: "path \<Rightarrow> error + (pystr \<times> pystr)" where
  "derive_ids_from_path p =
     (let stem = path_stem p;
          segments = split_on 0x5F stem
      in case item segments (- 1) of
           Inl e \<Rightarrow> Inl e
         | Inr doc_id \<Rightarrow> Inr (doc_id, path_name (path_parent p)))"

section \<open>Chunk records\<close>

record chunk =
  doc_id :: pystr
  chunk_id :: pystr
  source_group :: pystr
  chunk_text :: pystr

text \<open>The format \<open>{chunk_index:03d}\<close>: decimal digits, padded with zeros to three.\<close>

fun decimal :: "nat \<Rightarrow> pystr" where
  "decimal n = (if n < 10 then [0x30 + n] else decimal (n div 10) @ [0x30 + n mod 10])"

declare decimal.simps [simp del]

definition format_03d :: "nat \<Rightarrow> pystr" where
  "format_03d n = (let d = decimal n in replicate (3 - length d) 0x30 @ d)"

definition numbered_chunks :: "pystr \<Rightarrow> pystr \<Rightarrow> pystr list \<Rightarrow> chunk list" where
  "numbered_chunks did grp texts =
     map (\<lambda>(chunk_index, t).
            \<lparr>doc_id = did, chunk_id = did @ str ''_c'' @ format_03d chunk_index,
             source_group = grp, chunk_text = t\<rparr>)
         (enumerate 1 texts)"

section \<open>The flat-file path: \<open>process_file\<close> and \<open>main\<close>\<close>

text \<open>The rows \<open>process_file\<close> writes for one file, or the error it raises before writing any.\<close>

definition process_file :: "config \<Rightarrow> tokenizer \<Rightarrow> path \<Rightarrow> pystr \<Rightarrow> error + chunk list" where
  "process_file cfg tk p raw_text =
     (let text = legacy_clean_text (Some raw_text) in
      if text = [] then Inr []
      else
        case derive_ids_from_path p of
          Inl e \<Rightarrow> Inl e
        | Inr (did, grp) \<Rightarrow>
            let n_tokens = int (length (encode tk text)) in
            if n_tokens < MIN_DOC_TOKENS_SINGLE_CHUNK cfg
            then Inr [\<lparr>doc_id = did, chunk_id = did @ str ''_c001'',
                       source_group = grp, chunk_text = text\<rparr>]
            else
              (case split_into_token_chunks tk text (CHUNK_SIZE_TOKENS cfg)
                      (CHUNK_OVERLAP_TOKENS cfg) of
                 Inl e \<Rightarrow> Inl e
               | Inr texts \<Rightarrow> Inr (numbered_chunks did grp texts)))"

text \<open>
  The CSV writer is a library: what the rotation needs of it is the number of bytes of the
  header and of each row, so that \<open>f_out.tell()\<close> is their sum.
\<close>

record csv_sizes =
  header_bytes :: nat
  row_bytes :: "chunk \<Rightarrow> nat"

definition tell :: "csv_sizes \<Rightarrow> chunk list \<Rightarrow> int" where
  "tell csv rows = int (header_bytes csv + sum_list (map (row_bytes csv) rows))"

text \<open>
  The loop of \<open>main\<close> over the files found, each with its content: \<open>closed\<close> are the rows of
  the files already closed, \<open>cur\<close> the rows of the open one. The result is the error that
  ended the run, if any, and the rows of every file written.
\<close>

fun main_loop ::
  "config \<Rightarrow> tokenizer \<Rightarrow> csv_sizes \<Rightarrow> (path \<times> pystr) list \<Rightarrow> chunk list list \<Rightarrow> chunk list
     \<Rightarrow> error option \<times> chunk list list" where
  "main_loop cfg tk csv [] closed cur = (None, closed @ [cur])"
| "main_loop cfg tk csv ((p, raw_text) # rest) closed cur =
     (case process_file cfg tk p raw_text of
        Inl e \<Rightarrow> (Some e, closed @ [cur])
      | Inr rows \<Rightarrow>
          if MAX_BYTES cfg \<le> tell csv (cur @ rows)
          then main_loop cfg tk csv rest (closed @ [cur @ rows]) []
          else main_loop cfg tk csv rest closed (cur @ rows))"

definition main ::
  "config \<Rightarrow> tokenizer \<Rightarrow> csv_sizes \<Rightarrow> (path \<times> pystr) list \<Rightarrow> error option \<times> chunk list list" where
  "main cfg tk csv all_txt = (if all_txt = [] then (None, []) else main_loop cfg tk csv all_txt [] [])"

section \<open>The upload path: chunk objects, failed objects and the replay file\<close>

text \<open>\<open>text.split()\<close>: the maximal runs of characters that are not white space.\<close>

fun split_words :: "pystr \<Rightarrow> pystr list" where
  "split_words [] = []"
| "split_words (c # cs) =
     (if isspace c then split_words cs
      else (case cs of
              [] \<Rightarrow> [[c]]
            | d # _ \<Rightarrow>
                if isspace d then [c] # split_words cs
                else (case split_words cs of [] \<Rightarrow> [[c]] | w # ws \<Rightarrow> (c # w) # ws)))"

definition generate_chunk_objects_from_file ::
  "config \<Rightarrow> tokenizer \<Rightarrow> path \<Rightarrow> pystr \<Rightarrow> error + chunk list" where
  "generate_chunk_objects_from_file cfg tk p raw_text =
     (let text = upload_clean_text (Some raw_text) in
      if text = [] then Inr []
      else
        let word_count = int (length (split_words text)) in
        if word_count < MIN_WORDS_PER_DOC cfg then Inr []
        else
          (case derive_ids_from_path p of
             Inl e \<Rightarrow> Inl e
           | Inr (did, grp) \<Rightarrow>
               let n_tokens = int (length (encode tk text)) in
               if n_tokens < MIN_DOC_TOKENS_SINGLE_CHUNK cfg
               then Inr [\<lparr>doc_id = did, chunk_id = did @ str ''_c001'',
                          source_group = grp, chunk_text = text\<rparr>]
               else
                 (case split_into_token_chunks tk text (CHUNK_SIZE_TOKENS cfg)
                         (CHUNK_OVERLAP_TOKENS cfg) of
                    Inl e \<Rightarrow> Inl e
                  | Inr texts \<Rightarrow> Inr (numbered_chunks did grp texts))))"

text \<open>\<open>list(iter_all_chunk_objects())\<close>: the objects of every file in order, or the first error.\<close>

fun iter_all_chunk_objects ::
  "config \<Rightarrow> tokenizer \<Rightarrow> (path \<times> pystr) list \<Rightarrow> error + chunk list" where
  "iter_all_chunk_objects cfg tk [] = Inr []"
| "iter_all_chunk_objects cfg tk ((p, raw_text) # rest) =
     (case generate_chunk_objects_from_file cfg tk p raw_text of
        Inl e \<Rightarrow> Inl e
      | Inr objs \<Rightarrow>
          (case iter_all_chunk_objects cfg tk rest of
             Inl e \<Rightarrow> Inl e
           | Inr others \<Rightarrow> Inr (objs @ others)))"

text \<open>
  The properties of an object sent to the collection are a dictionary from strings to
  strings, kept as the list of its items in insertion order.
\<close>

type_synonym properties = "(pystr \<times> pystr) list"

definition chunk_properties :: "chunk \<Rightarrow> properties" where
  "chunk_properties c =
     [(str ''doc_id'', doc_id c), (str ''chunk_id'', chunk_id c),
      (str ''source_group'', source_group c), (str ''text'', chunk_text c)]"

text \<open>
  An entry of \<open>batch.failed_objects\<close> is an object of the client library. The loop looks at
  two attributes only: \<open>properties\<close>, and \<open>object\<close>, a dictionary read with
  \<open>.get("properties")\<close>. An attribute is missing (\<open>hasattr\<close> is false), \<open>None\<close>, or has a value.
\<close>

datatype 'a attribute = Missing | IsNone | Value 'a

record failed_object =
  fo_properties :: "properties attribute"
  fo_object :: "(pystr \<times> properties) list attribute"

fun capture_failed :: "failed_object list \<Rightarrow> properties list" where
  "capture_failed [] = []"
| "capture_failed (fo # fos) =
     (case fo_properties fo of
        Value props \<Rightarrow> props # capture_failed fos
      | _ \<Rightarrow>
          (case fo_object fo of
             Value obj \<Rightarrow>
               (case map_of obj (str ''properties'') of
                  Some props \<Rightarrow> if props \<noteq> [] then props # capture_failed fos
                                else capture_failed fos
                | None \<Rightarrow> capture_failed fos)
           | _ \<Rightarrow> capture_failed fos))"

text \<open>
  \<open>json.dumps(obj, ensure_ascii=False)\<close> on such a dictionary: the quote, the backslash and
  the characters below U+0020 are escaped, every other character is written as it is.
\<close>

definition hex_digit :: "nat \<Rightarrow> nat" where
  "hex_digit d = (if d < 10 then 0x30 + d else 0x61 + (d - 10))"

definition json_escape :: "nat \<Rightarrow> pystr" where
  "json_escape c =
     (if c = 0x22 then [0x5C, 0x22]
      else if c = 0x5C then [0x5C, 0x5C]
      else if c = 0x0A then [0x5C, 0x6E]
      else if c = 0x0D then [0x5C, 0x72]
      else if c = 0x09 then [0x5C, 0x74]
      else if c = 0x08 then [0x5C, 0x62]
      else if c = 0x0C then [0x5C, 0x66]
      else if c < 0x20 then [0x5C, 0x75, 0x30, 0x30, hex_digit (c div 16), hex_digit (c mod 16)]
      else [c])"

definition json_string :: "pystr \<Rightarrow> pystr" where
  "json_string s = [0x22] @ concat (map json_escape s) @ [0x22]"

definition json_dumps :: "properties \<Rightarrow> pystr" where
  "json_dumps obj =
     [0x7B] @ join [0x2C, 0x20] (map (\<lambda>(k, v). json_string k @ [0x3A, 0x20] @ json_string v) obj)
     @ [0x7D]"

text \<open>
  The end of \<open>upload_chunks\<close>: the strings written to \<open>failed_objects.jsonl\<close>, one call of
  \<open>f.write\<close> for each captured object, or \<open>None\<close> when the file is not opened.
\<close>

definition persist_failed :: "properties list \<Rightarrow> pystr list option" where
  "persist_failed failed_objects =
     (if failed_objects \<noteq> [] then Some (map (\<lambda>obj. json_dumps obj @ [0x0A]) failed_objects)
      else None)"

text \<open>
  \<open>connect_weaviate\<close> raises when the URL or the key is unset or empty. The batch client is
  a library: \<open>remote\<close> stands for it, giving the content of \<open>batch.failed_objects\<close> when
  the loop has added the objects. The outcome of \<open>upload_chunks\<close> is the error that ended
  it, if any, and the replay file.
\<close>

record credentials =
  WEAVIATE_URL :: "pystr option"
  WEAVIATE_API_KEY :: "pystr option"

definition falsy :: "pystr option \<Rightarrow> bool" where
  "falsy v = (case v of None \<Rightarrow> True | Some s \<Rightarrow> s = [])"

definition upload_chunks ::
  "config \<Rightarrow> tokenizer \<Rightarrow> credentials \<Rightarrow> (chunk list \<Rightarrow> failed_object list)
     \<Rightarrow> (path \<times> pystr) list \<Rightarrow> error option \<times> pystr list option" where
  "upload_chunks cfg tk cred remote all_txt =
     (case iter_all_chunk_objects cfg tk all_txt of
        Inl e \<Rightarrow> (Some e, None)
      | Inr all_objects \<Rightarrow>
          if all_objects = [] then (None, None)
          else if falsy (WEAVIATE_URL cred) \<or> falsy (WEAVIATE_API_KEY cred)
          then (Some RuntimeError, None)
          else (None, persist_failed (capture_failed (remote all_objects))))"

section \<open>Definitions used to state the properties\<close>

text \<open>The ceiling of \<open>a / b\<close> on natural numbers, for \<open>b > 0\<close>.\<close>

definition ceil_div :: "nat \<Rightarrow> nat \<Rightarrow> nat" where
  "ceil_div a b = (a + b - 1) div b"

text \<open>
  The number of chunks in the words of the specification: \<open>ceil((n - CHUNK_SIZE_TOKENS) / step) + 1\<close>
  when \<open>n > CHUNK_SIZE_TOKENS\<close>, else 1.
\<close>

definition spec_chunk_count :: "nat \<Rightarrow> nat \<Rightarrow> nat \<Rightarrow> nat" where
  "spec_chunk_count n chunk_size step =
     (if chunk_size < n then ceil_div (n - chunk_size) step + 1 else 1)"

text \<open>The rows of one file and of a group of files, when \<open>process_file\<close> does not raise.\<close>

definition rows_of :: "config \<Rightarrow> tokenizer \<Rightarrow> path \<times> pystr \<Rightarrow> chunk list" where
  "rows_of cfg tk d = (case process_file cfg tk (fst d) (snd d) of Inl e \<Rightarrow> [] | Inr rows \<Rightarrow> rows)"


text \<open>
  A cleaned line: no line feed, no carriage return, no two spaces in a row, and no white
  space at either end.
\<close>

definition clean_line :: "pystr \<Rightarrow> bool" where
  "clean_line y \<longleftrightarrow>
     0x0A \<notin> set y \<and> 0x0D \<notin> set y \<and> \<not> contains [0x20, 0x20] y \<and>
     (y \<noteq> [] \<longrightarrow> \<not> isspace (hd y) \<and> \<not> isspace (last y))"

text \<open>
  A line as the upload cleaner leaves it: only characters of the allow-list, no white space
  but single spaces, and none at either end.
\<close>

definition upload_line :: "pystr \<Rightarrow> bool" where
  "upload_line y \<longleftrightarrow>
     (\<forall>c \<in> set y. allowed_char c \<and> (isspace c \<longrightarrow> c = 0x20)) \<and>
     \<not> contains [0x20, 0x20] y \<and>
     (y \<noteq> [] \<longrightarrow> \<not> isspace (hd y) \<and> \<not> isspace (last y))"

section \<open>Concrete inputs\<close>

text \<open>
  Inputs on which the definitions are run below: a tokenizer with one token for each
  character, a CSV writer whose rows are the fields, three commas and the line end, a file
  of the second input directory and a short text with a page marker.
\<close>

definition char_tokenizer :: tokenizer where
  "char_tokenizer = \<lparr>encode = (\<lambda>s. s), decode = (\<lambda>t. t)\<rparr>"

definition plain_csv :: csv_sizes where
  "plain_csv =
     \<lparr>header_bytes = 35,
      row_bytes = (\<lambda>c. length (doc_id c) + length (chunk_id c) + length (source_group c)
                       + length (chunk_text c) + 5)\<rparr>"

definition hello_path :: path where
  "hello_path = \<lparr>anchor = [], parts = [str ''002'', str ''ABC_DEF_00042.txt'']\<rparr>"

definition hello_text :: pystr where
  "hello_text =
     str ''Page 1 of 2'' @ [0x0A] @ str ''Hello   big wide  open world.'' @ [0x0A, 0x0A]"

definition hello_chunk :: chunk where
  "hello_chunk =
     \<lparr>doc_id = str ''00042'', chunk_id = str ''00042_c001'', source_group = str ''002'',
      chunk_text = str ''Page 1 of 2 Hello big wide open world.''\<rparr>"

text \<open>
  For the upload path: the object of the short file, credentials that are set, a batch
  client that reports every object as failed with its properties, and one that reports
  every object as failed in a shape that has neither of the two attributes.
\<close>

definition hello_object :: chunk where
  "hello_object =
     \<lparr>doc_id = str ''00042'', chunk_id = str ''00042_c001'', source_group = str ''002'',
      chunk_text = str ''Hello big wide open world.''\<rparr>"

definition sample_credentials :: credentials where
  "sample_credentials =
     \<lparr>WEAVIATE_URL = Some (str ''https://example.invalid''), WEAVIATE_API_KEY = Some (str ''key'')\<rparr>"

definition rejecting_remote :: "chunk list \<Rightarrow> failed_object list" where
  "rejecting_remote objs =
     map (\<lambda>c. \<lparr>fo_properties = Value (chunk_properties c), fo_object = Missing\<rparr>) objs"


section \<open>Evaluation on concrete inputs\<close>

lemmas clean_ev = str_def isspace_def strip_def replace_def collapse_double_spaces.simps
  match_page_marker_def match_plus_def ci_letter_def unicode_decimal_def decimal_blocks_def
  allowed_char_def sub_ocr_junk_def legacy_clean_text_def upload_clean_text_def Let_def

lemmas path_ev = str_def path_stem_def path_name_def path_parent_def
  derive_ids_from_path_def item_def Let_def

lemma hello_legacy:
  "legacy_clean_text (Some hello_text) = str ''Page 1 of 2 Hello big wide open world.''"
  by (simp add: hello_text_def clean_ev)

lemma hello_upload:
  "upload_clean_text (Some hello_text) = str ''Hello big wide open world.''"
  by (simp add: hello_text_def clean_ev)

lemma hello_ids: "derive_ids_from_path hello_path = Inr (str ''00042'', str ''002'')"
  by (simp add: hello_path_def path_ev)

lemma hello_words: "length (split_words (str ''Hello big wide open world.'')) = 5"
  by (simp add: str_def isspace_def)

lemmas chunk_ev = split_into_token_chunks_def token_windows_def slice_def slice_bound_def
  char_tokenizer_def source_config_def Let_def


section \<open>Identifiers\<close>

lemma split_on_snoc: "\<exists>segs seg. split_on sep s = segs @ [seg]"
proof (induction s)
  case Nil
  show ?case by simp
next
  case (Cons c cs)
  then obtain segs seg where e: "split_on sep cs = segs @ [seg]" by blast
  show ?case
  proof (cases "c = sep")
    case True
    then have "split_on sep (c # cs) = ([] # segs) @ [seg]" using e by simp
    then show ?thesis by blast
  next
    case False
    show ?thesis
    proof (cases segs)
      case Nil
      then have "split_on sep (c # cs) = [] @ [c # seg]" using e False by simp
      then show ?thesis by blast
    next
      case (Cons l ls)
      then have "split_on sep (c # cs) = ((c # l) # ls) @ [seg]" using e False by simp
      then show ?thesis by blast
    qed
  qed
qed

lemma item_last: "item (segs @ [seg]) (- 1) = Inr seg"
  by (simp add: item_def nth_append)

lemma split_on_no_sep: "sep \<notin> set s \<Longrightarrow> split_on sep s = [s]"
  by (induction s) auto

lemma split_on_append_sep: "split_on sep (s @ [sep]) = split_on sep s @ [[]]"
proof (induction s)
  case Nil
  show ?case by simp
next
  case (Cons c cs)
  obtain segs seg where e: "split_on sep cs = segs @ [seg]" using split_on_snoc by blast
  show ?case using Cons e by (cases segs) auto
qed

lemma derive_ids_from_path_Inr: "\<exists>did grp. derive_ids_from_path p = Inr (did, grp)"
proof -
  obtain segs seg where "split_on 0x5F (path_stem p) = segs @ [seg]"
    using split_on_snoc by blast
  then show ?thesis by (simp add: derive_ids_from_path_def Let_def item_last)
qed

text \<open>
  Claim C10. \<open>derive_ids_from_path\<close> never raises: the stem split on the underscore has a
  last segment, and the result is that segment with the name of the parent directory.
  No check is made on the segment: a stem that ends with an underscore gives the empty
  \<open>doc_id\<close>, and a stem without underscore is the \<open>doc_id\<close> as a whole.
\<close>

theorem derive_ids_from_path_total:
  "\<exists>segs seg. split_on 0x5F (path_stem p) = segs @ [seg] \<and>
      derive_ids_from_path p = Inr (seg, path_name (path_parent p)) \<and>
      (\<forall>s. path_stem p = s @ [0x5F] \<longrightarrow> seg = []) \<and>
      (0x5F \<notin> set (path_stem p) \<longrightarrow> seg = path_stem p)"
proof -
  obtain segs seg where e: "split_on 0x5F (path_stem p) = segs @ [seg]"
    using split_on_snoc by blast
  have d: "derive_ids_from_path p = Inr (seg, path_name (path_parent p))"
    using e by (simp add: derive_ids_from_path_def Let_def item_last)
  have u: "seg = []" if "path_stem p = s @ [0x5F]" for s
    using e that split_on_append_sep [of "0x5F" s] by simp
  have n: "seg = path_stem p" if "0x5F \<notin> set (path_stem p)"
    using e split_on_no_sep [OF that] by simp
  show ?thesis using e d u n by blast
qed

text \<open>
  The theorem at two files of directory \<open>002\<close>: \<open>ABC_.txt\<close>, whose stem ends with an
  underscore, and \<open>ABC.txt\<close>, whose stem has none. With the empty \<open>doc_id\<close> of the first
  file the identifier of its chunk is \<open>_c001\<close>.
\<close>

theorem derive_ids_from_path_total_witness:
  "path_stem \<lparr>anchor = [], parts = [str ''002'', str ''ABC_.txt'']\<rparr> = str ''ABC'' @ [0x5F] \<and>
   derive_ids_from_path \<lparr>anchor = [], parts = [str ''002'', str ''ABC_.txt'']\<rparr>
     = Inr ([], str ''002'') \<and>
   0x5F \<notin> set (path_stem \<lparr>anchor = [], parts = [str ''002'', str ''ABC.txt'']\<rparr>) \<and>
   derive_ids_from_path \<lparr>anchor = [], parts = [str ''002'', str ''ABC.txt'']\<rparr>
     = Inr (str ''ABC'', str ''002'') \<and>
   map chunk_id (rows_of source_config char_tokenizer
       (\<lparr>anchor = [], parts = [str ''002'', str ''ABC_.txt'']\<rparr>, hello_text))
     = [str ''_c001'']"
proof -
  let ?p = "\<lparr>anchor = [], parts = [str ''002'', str ''ABC_.txt'']\<rparr>"
  let ?q = "\<lparr>anchor = [], parts = [str ''002'', str ''ABC.txt'']\<rparr>"
  have sp: "path_stem ?p = str ''ABC'' @ [0x5F]" by (simp add: path_ev)
  have sq: "path_stem ?q = str ''ABC''" by (simp add: path_ev)
  have nq: "0x5F \<notin> set (path_stem ?q)" by (simp add: sq) (simp add: str_def)
  have gp: "path_name (path_parent ?p) = str ''002''" by (simp add: path_ev)
  have gq: "path_name (path_parent ?q) = str ''002''" by (simp add: path_ev)
  from derive_ids_from_path_total [of ?p] obtain seg where
    "derive_ids_from_path ?p = Inr (seg, path_name (path_parent ?p))" and
    "\<forall>s. path_stem ?p = s @ [0x5F] \<longrightarrow> seg = []"
    by blast
  then have p: "derive_ids_from_path ?p = Inr ([], str ''002'')" using sp gp by simp
  from derive_ids_from_path_total [of ?q] obtain seg' where
    "derive_ids_from_path ?q = Inr (seg', path_name (path_parent ?q))" and
    "0x5F \<notin> set (path_stem ?q) \<longrightarrow> seg' = path_stem ?q"
    by blast
  then have q: "derive_ids_from_path ?q = Inr (str ''ABC'', str ''002'')" using nq sq gq by simp
  have n: "int (length (str ''Page 1 of 2 Hello big wide open world.'')) < 220"
    by (simp add: str_def)
  have c: "map chunk_id (rows_of source_config char_tokenizer (?p, hello_text)) = [str ''_c001'']"
    using n by (simp add: rows_of_def process_file_def hello_legacy p Let_def source_config_def
        char_tokenizer_def) (simp add: str_def)
  show ?thesis by (intro conjI) (fact sp, fact p, fact nq, fact q, fact c)
qed

section \<open>Short documents\<close>

text \<open>
  Claim C4. A document that is not skipped and whose cleaned text has fewer tokens than
  \<open>MIN_DOC_TOKENS_SINGLE_CHUNK\<close> gives exactly one chunk: its text is the cleaned text
  itself, and its \<open>chunk_id\<close> is the \<open>doc_id\<close> followed by \<open>_c001\<close>. This holds for
  \<open>process_file\<close> of the flat-file path and for \<open>generate_chunk_objects_from_file\<close> of the
  upload path, which also skips the documents with too few words.
\<close>

theorem short_document_single_chunk:
  "(legacy_clean_text (Some raw_text) \<noteq> [] \<and>
    int (length (encode tk (legacy_clean_text (Some raw_text)))) < MIN_DOC_TOKENS_SINGLE_CHUNK cfg
    \<longrightarrow> (\<exists>did grp. derive_ids_from_path p = Inr (did, grp) \<and>
          process_file cfg tk p raw_text =
            Inr [\<lparr>doc_id = did, chunk_id = did @ str ''_c001'', source_group = grp,
                  chunk_text = legacy_clean_text (Some raw_text)\<rparr>])) \<and>
   (upload_clean_text (Some raw_text) \<noteq> [] \<and>
    MIN_WORDS_PER_DOC cfg \<le> int (length (split_words (upload_clean_text (Some raw_text)))) \<and>
    int (length (encode tk (upload_clean_text (Some raw_text)))) < MIN_DOC_TOKENS_SINGLE_CHUNK cfg
    \<longrightarrow> (\<exists>did grp. derive_ids_from_path p = Inr (did, grp) \<and>
          generate_chunk_objects_from_file cfg tk p raw_text =
            Inr [\<lparr>doc_id = did, chunk_id = did @ str ''_c001'', source_group = grp,
                  chunk_text = upload_clean_text (Some raw_text)\<rparr>]))"
proof -
  obtain did grp where d: "derive_ids_from_path p = Inr (did, grp)"
    using derive_ids_from_path_Inr by blast
  show ?thesis
    using d by (simp add: process_file_def generate_chunk_objects_from_file_def Let_def)
qed

text \<open>The theorem at the file \<open>002/ABC_DEF_00042.txt\<close> with the source's constants.\<close>

theorem short_document_single_chunk_witness:
  "process_file source_config char_tokenizer hello_path hello_text =
     Inr [\<lparr>doc_id = str ''00042'', chunk_id = str ''00042_c001'', source_group = str ''002'',
           chunk_text = str ''Page 1 of 2 Hello big wide open world.''\<rparr>] \<and>
   generate_chunk_objects_from_file source_config char_tokenizer hello_path hello_text =
     Inr [\<lparr>doc_id = str ''00042'', chunk_id = str ''00042_c001'', source_group = str ''002'',
           chunk_text = str ''Hello big wide open world.''\<rparr>]"
proof -
  have w: "length (split_words (str ''Hello big wide open world.'')) = 5"
    by (simp add: str_def isspace_def)
  have l: "legacy_clean_text (Some hello_text) \<noteq> [] \<and>
    int (length (encode char_tokenizer (legacy_clean_text (Some hello_text))))
      < MIN_DOC_TOKENS_SINGLE_CHUNK source_config"
    by (simp add: hello_legacy char_tokenizer_def source_config_def) (simp add: str_def)
  have u: "upload_clean_text (Some hello_text) \<noteq> [] \<and>
    MIN_WORDS_PER_DOC source_config
      \<le> int (length (split_words (upload_clean_text (Some hello_text)))) \<and>
    int (length (encode char_tokenizer (upload_clean_text (Some hello_text))))
      < MIN_DOC_TOKENS_SINGLE_CHUNK source_config"
    by (simp add: hello_upload w char_tokenizer_def source_config_def) (simp add: str_def)
  show ?thesis
    using short_document_single_chunk [of hello_text char_tokenizer source_config hello_path] l u
    by (simp add: hello_ids hello_legacy hello_upload) (simp add: str_def)
qed

section \<open>The sliding window\<close>

lemma length_range_from:
  "0 < step \<Longrightarrow> length (range_from start stop step) = ceil_div (stop - start) step"
proof (induction start stop step rule: range_from.induct)
  case (1 start stop step)
  show ?case
  proof (cases "start < stop")
    case False
    then show ?thesis using "1.prems" by (simp add: range_from.simps ceil_div_def)
  next
    case True
    have ih: "length (range_from (start + step) stop step) = ceil_div (stop - (start + step)) step"
      using "1.IH" "1.prems" True by simp
    have "ceil_div (stop - start) step = Suc (ceil_div (stop - (start + step)) step)"
    proof (cases "step \<le> stop - start")
      case True
      have ds: "(x + step) div step = Suc (x div step)" for x
        using "1.prems" div_add_self2 [of step x] by simp
      have "stop - start + step - 1 = (stop - (start + step) + step - 1) + step"
        using True "1.prems" by simp
      then show ?thesis unfolding ceil_div_def by (simp only: ds)
    next
      case False
      then have z: "stop - (start + step) = 0" by simp
      have "(stop - start + step - 1) div step = 1"
        using False True "1.prems" by (simp add: div_eq_dividend_iff le_div_geq)
      then show ?thesis using z "1.prems" by (simp add: ceil_div_def)
    qed
    then show ?thesis using ih True "1.prems" by (subst range_from.simps) simp
  qed
qed

lemma range_from_bound: "x \<in> set (range_from start stop step) \<Longrightarrow> x < stop"
proof (induction start stop step rule: range_from.induct)
  case (1 start stop step)
  show ?case
  proof (cases "0 < step \<and> start < stop")
    case True
    then have "x = start \<or> x \<in> set (range_from (start + step) stop step)"
      using "1.prems" by (subst (asm) range_from.simps) simp
    then show ?thesis using "1.IH" True by auto
  next
    case False
    then show ?thesis using "1.prems" by (subst (asm) range_from.simps) auto
  qed
qed

lemma range_from_member:
  "0 < step \<Longrightarrow> start + k * step < stop \<Longrightarrow> start + k * step \<in> set (range_from start stop step)"
proof (induction k arbitrary: start)
  case 0
  then show ?case by (subst range_from.simps) simp
next
  case (Suc k)
  have "(start + step) + k * step \<in> set (range_from (start + step) stop step)"
    using Suc.IH [of "start + step"] Suc.prems by (simp add: ac_simps)
  moreover have "start < stop" using Suc.prems by simp
  ultimately show ?case using Suc.prems by (subst range_from.simps) (simp add: ac_simps)
qed

lemma slice_window:
  "start < length xs \<Longrightarrow> 0 < chunk_size \<Longrightarrow>
     slice xs (int start) (int start + chunk_size) = take (nat chunk_size) (drop start xs)"
proof -
  assume s: "start < length xs" and c: "0 < chunk_size"
  have a: "slice_bound (length xs) (int start) = start" using s by (simp add: slice_bound_def)
  have b: "slice_bound (length xs) (int start + chunk_size) = min (length xs) (start + nat chunk_size)"
    using c by (simp add: slice_bound_def nat_add_distrib)
  show ?thesis using s c by (simp add: slice_def a b min_def)
qed

lemma slice_window_nonempty:
  "start < length xs \<Longrightarrow> 0 < chunk_size \<Longrightarrow> slice xs (int start) (int start + chunk_size) \<noteq> []"
  by (simp add: slice_window)

lemma token_windows_all:
  "0 < chunk_size \<Longrightarrow>
   token_windows tokens chunk_size step =
     map (\<lambda>start. slice tokens (int start) (int start + chunk_size))
       (range_from 0 (length tokens) step)"
  unfolding token_windows_def
  by (rule filter_True) (auto dest: range_from_bound simp: slice_window_nonempty)

text \<open>
  Claim C1, as the code has it. For a text with at least one token, a positive step and a
  positive chunk size, the chunker returns \<open>ceil(n / step)\<close> chunks, where \<open>n\<close> is the
  number of tokens: one chunk for every start \<open>0, step, 2*step, ...\<close> below \<open>n\<close>.
\<close>

theorem number_of_chunks:
  assumes "encode tk text \<noteq> []" and "chunk_overlap < chunk_size" and "0 < chunk_size"
  shows "\<exists>chunks. split_into_token_chunks tk text chunk_size chunk_overlap = Inr chunks \<and>
           length chunks = ceil_div (length (encode tk text)) (nat (chunk_size - chunk_overlap))"
  using assms by (simp add: split_into_token_chunks_def Let_def token_windows_all length_range_from)

text \<open>The theorem on the example of the specification: 700 tokens, three chunks.\<close>

theorem number_of_chunks_witness:
  "split_into_token_chunks char_tokenizer (replicate 700 0x61) 350 70
     = Inr [replicate 350 0x61, replicate 350 0x61, replicate 140 0x61] \<and>
   ceil_div 700 280 = 3"
proof -
  have r: "range_from 0 700 280 = [0, 280, 560]" by (simp add: range_from.simps)
  have e: "split_into_token_chunks char_tokenizer (replicate 700 0x61) 350 70
     = Inr [replicate 350 0x61, replicate 350 0x61, replicate 140 0x61]"
    by (simp add: chunk_ev r)
  have h: "encode char_tokenizer (replicate 700 0x61) \<noteq> []" by (simp add: char_tokenizer_def)
  from number_of_chunks [OF h, of 70 350] obtain chunks where
    "split_into_token_chunks char_tokenizer (replicate 700 0x61) 350 70 = Inr chunks" and
    "length chunks = ceil_div (length (encode char_tokenizer (replicate 700 0x61))) (nat (350 - 70))"
    by auto
  then have "ceil_div 700 280 = 3" using e by (simp add: char_tokenizer_def)
  then show ?thesis using e by simp
qed

text \<open>
  The count of the specification fails on the code. With the source's constants a text of
  570 tokens gives three chunks, the last one being the tokens 560 to 569, where the formula
  \<open>ceil((n - 350) / 280) + 1\<close> gives two; a text of 300 tokens gives two chunks where the
  claim gives one.
\<close>

theorem number_of_chunks_counterexample:
  "split_into_token_chunks char_tokenizer (replicate 570 0x61)
     (CHUNK_SIZE_TOKENS source_config) (CHUNK_OVERLAP_TOKENS source_config)
     = Inr [replicate 350 0x61, replicate 290 0x61, replicate 10 0x61] \<and>
   spec_chunk_count 570 350 280 = 2 \<and>
   split_into_token_chunks char_tokenizer (replicate 300 0x61)
     (CHUNK_SIZE_TOKENS source_config) (CHUNK_OVERLAP_TOKENS source_config)
     = Inr [replicate 300 0x61, replicate 20 0x61] \<and>
   spec_chunk_count 300 350 280 = 1"
proof -
  have r1: "range_from 0 570 280 = [0, 280, 560]"
    by (simp add: range_from.simps)
  have r2: "range_from 0 300 280 = [0, 280]"
    by (simp add: range_from.simps)
  show ?thesis
    by (simp add: chunk_ev r1 r2 spec_chunk_count_def ceil_div_def)
qed

text \<open>
  Claim C9, as the code has it. When the overlap is not negative and is smaller than the
  chunk size, every token index \<open>i\<close> lies in the window that starts at \<open>k * step\<close> for
  \<open>k = i div step\<close>; that window is one of those the chunker decodes, and it holds the
  token at position \<open>i - k * step\<close>.
\<close>

theorem windows_cover_tokens:
  assumes "0 \<le> chunk_overlap" and "chunk_overlap < chunk_size" and "i < length (encode tk text)"
  shows "\<exists>k. k * nat (chunk_size - chunk_overlap) < length (encode tk text) \<and>
           k * nat (chunk_size - chunk_overlap) \<le> i \<and>
           int i < int (k * nat (chunk_size - chunk_overlap)) + chunk_size \<and>
           slice (encode tk text) (int (k * nat (chunk_size - chunk_overlap)))
               (int (k * nat (chunk_size - chunk_overlap)) + chunk_size)
             \<in> set (token_windows (encode tk text) chunk_size (nat (chunk_size - chunk_overlap))) \<and>
           slice (encode tk text) (int (k * nat (chunk_size - chunk_overlap)))
               (int (k * nat (chunk_size - chunk_overlap)) + chunk_size) ! (i - k * nat (chunk_size - chunk_overlap))
             = encode tk text ! i \<and>
           split_into_token_chunks tk text chunk_size chunk_overlap
             = Inr (map (decode tk)
                 (token_windows (encode tk text) chunk_size (nat (chunk_size - chunk_overlap))))"
proof -
  define step where "step = nat (chunk_size - chunk_overlap)"
  define tokens where "tokens = encode tk text"
  define k where "k = i div step"
  have sp: "0 < step" and ss: "int step \<le> chunk_size" and cs: "0 < chunk_size"
    using assms by (simp_all add: step_def)
  have lo: "k * step \<le> i" by (simp add: k_def)
  have hi: "i < k * step + step"
    using sp by (simp add: k_def) (metis Suc_eq_plus1 add.commute dividend_less_div_times mult.commute)
  have lt: "k * step < length tokens" using lo assms(3) by (simp add: tokens_def)
  have hi': "int i < int (k * step) + chunk_size" using hi ss by linarith
  have mem: "k * step \<in> set (range_from 0 (length tokens) step)"
    using range_from_member [OF sp, of 0 k "length tokens"] lt by simp
  have win: "slice tokens (int (k * step)) (int (k * step) + chunk_size)
      \<in> set (token_windows tokens chunk_size step)"
    unfolding token_windows_all [OF cs] set_map by (rule imageI [OF mem])
  have nth: "slice tokens (int (k * step)) (int (k * step) + chunk_size) ! (i - k * step) = tokens ! i"
  proof -
    have b: "i - k * step < nat chunk_size" using hi' lo by linarith
    have e: "slice tokens (int (k * step)) (int (k * step) + chunk_size)
        = take (nat chunk_size) (drop (k * step) tokens)"
      by (rule slice_window [OF lt cs])
    have "take (nat chunk_size) (drop (k * step) tokens) ! (i - k * step) = tokens ! i"
      using b lo lt by simp
    then show ?thesis by (simp only: e)
  qed
  have res: "split_into_token_chunks tk text chunk_size chunk_overlap
      = Inr (map (decode tk) (token_windows tokens chunk_size step))"
    using assms by (auto simp: split_into_token_chunks_def Let_def tokens_def step_def)
  show ?thesis
    using lt lo hi' win nth res unfolding step_def tokens_def by blast
qed

text \<open>The theorem at token 600 of a text of 700 tokens, with the source's constants.\<close>

theorem windows_cover_tokens_witness:
  "(0::int) \<le> 70 \<and> (70::int) < 350 \<and> 600 < length (encode char_tokenizer (replicate 700 0x61)) \<and>
   (\<exists>k. k * 280 < (700::nat) \<and> k * 280 \<le> 600 \<and> int 600 < int (k * 280) + 350 \<and>
        slice (replicate 700 (0x61::nat)) (int (k * 280)) (int (k * 280) + 350)
          \<in> set (token_windows (replicate 700 0x61) 350 280))"
proof -
  have h: "600 < length (encode char_tokenizer (replicate 700 0x61))"
    by (simp add: char_tokenizer_def)
  from windows_cover_tokens [of 70 350 600 char_tokenizer "replicate 700 0x61"] h
  obtain k where
    "k * nat (350 - 70) < length (encode char_tokenizer (replicate 700 0x61))" and
    "k * nat (350 - 70) \<le> 600" and
    "int 600 < int (k * nat (350 - 70)) + 350" and
    "slice (encode char_tokenizer (replicate 700 0x61)) (int (k * nat (350 - 70)))
        (int (k * nat (350 - 70)) + 350)
      \<in> set (token_windows (encode char_tokenizer (replicate 700 0x61)) 350 (nat (350 - 70)))"
    by auto
  then have "k * 280 < (700::nat) \<and> k * 280 \<le> 600 \<and> int 600 < int (k * 280) + 350 \<and>
        slice (replicate 700 (0x61::nat)) (int (k * 280)) (int (k * 280) + 350)
          \<in> set (token_windows (replicate 700 0x61) 350 280)"
    by (simp add: char_tokenizer_def)
  then have "\<exists>k. k * 280 < (700::nat) \<and> k * 280 \<le> 600 \<and> int 600 < int (k * 280) + 350 \<and>
        slice (replicate 700 (0x61::nat)) (int (k * 280)) (int (k * 280) + 350)
          \<in> set (token_windows (replicate 700 0x61) 350 280)"
    by (rule exI)
  moreover have "(0::int) \<le> 70 \<and> (70::int) < 350" by simp
  ultimately show ?thesis using h by blast
qed

text \<open>
  With a negative overlap the step is larger than the window and tokens are lost: for a
  window of 2 and an overlap of -1 the step is 3, and the third character of \<open>abcd\<close> is in
  no chunk.
\<close>

theorem windows_cover_tokens_counterexample:
  "(0::int) < 2 - (- 1) \<and>
   token_windows (encode char_tokenizer (str ''abcd'')) 2 (nat (2 - (- 1))) = [str ''ab'', str ''d''] \<and>
   split_into_token_chunks char_tokenizer (str ''abcd'') 2 (- 1) = Inr [str ''ab'', str ''d''] \<and>
   encode char_tokenizer (str ''abcd'') ! 2 \<notin> set (concat [str ''ab'', str ''d''])"
proof -
  have r: "range_from 0 (Suc (Suc (Suc (Suc 0)))) 3 = [0, 3]" by (simp add: range_from.simps)
  show ?thesis by (simp add: chunk_ev str_def r)
qed

section \<open>A step that is not positive\<close>

lemma split_into_token_chunks_error:
  "split_into_token_chunks tk text chunk_size chunk_overlap = Inl e \<Longrightarrow>
     e = ValueError \<and> chunk_size \<le> chunk_overlap"
  by (auto simp: split_into_token_chunks_def Let_def split: if_splits)

lemma process_file_error:
  "process_file cfg tk p raw_text = Inl e \<Longrightarrow>
     e = ValueError \<and> CHUNK_SIZE_TOKENS cfg \<le> CHUNK_OVERLAP_TOKENS cfg"
proof -
  assume a: "process_file cfg tk p raw_text = Inl e"
  obtain did grp where d: "derive_ids_from_path p = Inr (did, grp)"
    using derive_ids_from_path_Inr by blast
  from a d have "split_into_token_chunks tk (legacy_clean_text (Some raw_text))
      (CHUNK_SIZE_TOKENS cfg) (CHUNK_OVERLAP_TOKENS cfg) = Inl e"
    by (auto simp: process_file_def Let_def split: if_splits sum.splits)
  then show ?thesis by (rule split_into_token_chunks_error)
qed

lemma generate_chunk_objects_from_file_error:
  "generate_chunk_objects_from_file cfg tk p raw_text = Inl e \<Longrightarrow>
     e = ValueError \<and> CHUNK_SIZE_TOKENS cfg \<le> CHUNK_OVERLAP_TOKENS cfg"
proof -
  assume a: "generate_chunk_objects_from_file cfg tk p raw_text = Inl e"
  obtain did grp where d: "derive_ids_from_path p = Inr (did, grp)"
    using derive_ids_from_path_Inr by blast
  from a d have "split_into_token_chunks tk (upload_clean_text (Some raw_text))
      (CHUNK_SIZE_TOKENS cfg) (CHUNK_OVERLAP_TOKENS cfg) = Inl e"
    by (auto simp: generate_chunk_objects_from_file_def Let_def split: if_splits sum.splits)
  then show ?thesis by (rule split_into_token_chunks_error)
qed

lemma process_file_raises:
  assumes "CHUNK_SIZE_TOKENS cfg \<le> CHUNK_OVERLAP_TOKENS cfg"
    and "legacy_clean_text (Some raw_text) \<noteq> []"
    and "encode tk (legacy_clean_text (Some raw_text)) \<noteq> []"
    and "MIN_DOC_TOKENS_SINGLE_CHUNK cfg \<le> int (length (encode tk (legacy_clean_text (Some raw_text))))"
  shows "process_file cfg tk p raw_text = Inl ValueError"
proof -
  obtain did grp where d: "derive_ids_from_path p = Inr (did, grp)"
    using derive_ids_from_path_Inr by blast
  show ?thesis using assms d
    by (simp add: process_file_def split_into_token_chunks_def Let_def)
qed

lemma generate_chunk_objects_from_file_raises:
  assumes "CHUNK_SIZE_TOKENS cfg \<le> CHUNK_OVERLAP_TOKENS cfg"
    and "upload_clean_text (Some raw_text) \<noteq> []"
    and "MIN_WORDS_PER_DOC cfg \<le> int (length (split_words (upload_clean_text (Some raw_text))))"
    and "encode tk (upload_clean_text (Some raw_text)) \<noteq> []"
    and "MIN_DOC_TOKENS_SINGLE_CHUNK cfg \<le> int (length (encode tk (upload_clean_text (Some raw_text))))"
  shows "generate_chunk_objects_from_file cfg tk p raw_text = Inl ValueError"
proof -
  obtain did grp where d: "derive_ids_from_path p = Inr (did, grp)"
    using derive_ids_from_path_Inr by blast
  show ?thesis using assms d
    by (simp add: generate_chunk_objects_from_file_def split_into_token_chunks_def Let_def)
qed

lemma main_loop_error:
  "fst (main_loop cfg tk csv all_txt closed cur) = Some e \<Longrightarrow> e = ValueError"
proof (induction all_txt arbitrary: closed cur)
  case Nil
  then show ?case by simp
next
  case (Cons d rest)
  obtain p raw_text where d: "d = (p, raw_text)" by (cases d)
  show ?case
  proof (cases "process_file cfg tk p raw_text")
    case (Inl e')
    then show ?thesis using Cons.prems d process_file_error [OF Inl] by simp
  next
    case (Inr rows)
    then show ?thesis using Cons.prems Cons.IH d by (simp split: if_splits)
  qed
qed

lemma main_loop_raises:
  "(p, raw_text) \<in> set all_txt \<Longrightarrow> process_file cfg tk p raw_text = Inl e \<Longrightarrow>
     fst (main_loop cfg tk csv all_txt closed cur) = Some ValueError"
proof (induction all_txt arbitrary: closed cur)
  case Nil
  then show ?case by simp
next
  case (Cons d rest)
  obtain q raw' where d: "d = (q, raw')" by (cases d)
  show ?case
  proof (cases "process_file cfg tk q raw'")
    case (Inl e')
    then show ?thesis using d process_file_error [OF Inl] by simp
  next
    case (Inr rows)
    then have "(p, raw_text) \<in> set rest" using Cons.prems d by auto
    then show ?thesis using Cons.IH Cons.prems(2) Inr d by simp
  qed
qed

lemma iter_all_chunk_objects_raises:
  "(p, raw_text) \<in> set all_txt \<Longrightarrow> generate_chunk_objects_from_file cfg tk p raw_text = Inl e \<Longrightarrow>
     iter_all_chunk_objects cfg tk all_txt = Inl ValueError"
proof (induction all_txt)
  case Nil
  then show ?case by simp
next
  case (Cons d rest)
  obtain q raw' where d: "d = (q, raw')" by (cases d)
  show ?case
  proof (cases "generate_chunk_objects_from_file cfg tk q raw'")
    case (Inl e')
    then show ?thesis using d generate_chunk_objects_from_file_error [OF Inl] by simp
  next
    case (Inr objs)
    then have "(p, raw_text) \<in> set rest" using Cons.prems d by auto
    then show ?thesis using Cons.IH Cons.prems(2) Inr d by simp
  qed
qed

text \<open>
  Claim C6, as the code has it. When the overlap is not smaller than the chunk size, the
  chunker raises \<open>ValueError\<close> for every text that has a token; \<open>process_file\<close> and
  \<open>generate_chunk_objects_from_file\<close> raise it for every document that is not skipped and
  has at least \<open>MIN_DOC_TOKENS_SINGLE_CHUNK\<close> tokens; and a run that meets such a document
  ends with that error: \<open>main\<close> stops, and \<open>upload_chunks\<close> stops before it connects and
  writes no replay file.
\<close>

theorem nonpositive_step_raises:
  assumes "CHUNK_SIZE_TOKENS cfg \<le> CHUNK_OVERLAP_TOKENS cfg"
  shows
    "(encode tk text \<noteq> [] \<longrightarrow>
        split_into_token_chunks tk text (CHUNK_SIZE_TOKENS cfg) (CHUNK_OVERLAP_TOKENS cfg)
          = Inl ValueError) \<and>
     ((p, raw_text) \<in> set all_txt \<and> legacy_clean_text (Some raw_text) \<noteq> [] \<and>
      encode tk (legacy_clean_text (Some raw_text)) \<noteq> [] \<and>
      MIN_DOC_TOKENS_SINGLE_CHUNK cfg \<le> int (length (encode tk (legacy_clean_text (Some raw_text))))
        \<longrightarrow> process_file cfg tk p raw_text = Inl ValueError \<and>
            fst (main cfg tk csv all_txt) = Some ValueError) \<and>
     ((p, raw_text) \<in> set all_txt \<and> upload_clean_text (Some raw_text) \<noteq> [] \<and>
      MIN_WORDS_PER_DOC cfg \<le> int (length (split_words (upload_clean_text (Some raw_text)))) \<and>
      encode tk (upload_clean_text (Some raw_text)) \<noteq> [] \<and>
      MIN_DOC_TOKENS_SINGLE_CHUNK cfg \<le> int (length (encode tk (upload_clean_text (Some raw_text))))
        \<longrightarrow> generate_chunk_objects_from_file cfg tk p raw_text = Inl ValueError \<and>
            upload_chunks cfg tk cred remote all_txt = (Some ValueError, None))"
proof (intro conjI impI)
  assume "encode tk text \<noteq> []"
  then show "split_into_token_chunks tk text (CHUNK_SIZE_TOKENS cfg) (CHUNK_OVERLAP_TOKENS cfg)
      = Inl ValueError"
    using assms by (simp add: split_into_token_chunks_def Let_def)
next
  assume a: "(p, raw_text) \<in> set all_txt \<and> legacy_clean_text (Some raw_text) \<noteq> [] \<and>
      encode tk (legacy_clean_text (Some raw_text)) \<noteq> [] \<and>
      MIN_DOC_TOKENS_SINGLE_CHUNK cfg \<le> int (length (encode tk (legacy_clean_text (Some raw_text))))"
  then show r: "process_file cfg tk p raw_text = Inl ValueError"
    using process_file_raises [OF assms] by blast
  have "all_txt \<noteq> []" using a by auto
  then show "fst (main cfg tk csv all_txt) = Some ValueError"
    using main_loop_raises [OF _ r] a by (simp add: main_def)
next
  assume a: "(p, raw_text) \<in> set all_txt \<and> upload_clean_text (Some raw_text) \<noteq> [] \<and>
      MIN_WORDS_PER_DOC cfg \<le> int (length (split_words (upload_clean_text (Some raw_text)))) \<and>
      encode tk (upload_clean_text (Some raw_text)) \<noteq> [] \<and>
      MIN_DOC_TOKENS_SINGLE_CHUNK cfg \<le> int (length (encode tk (upload_clean_text (Some raw_text))))"
  then show r: "generate_chunk_objects_from_file cfg tk p raw_text = Inl ValueError"
    using generate_chunk_objects_from_file_raises [OF assms] by blast
  show "upload_chunks cfg tk cred remote all_txt = (Some ValueError, None)"
    using iter_all_chunk_objects_raises [OF _ r] a by (simp add: upload_chunks_def)
qed

text \<open>
  The theorem with overlap and size both 350 and a threshold of 20 tokens, on the text of
  38 characters.
\<close>

theorem nonpositive_step_raises_witness:
  "split_into_token_chunks char_tokenizer hello_text 350 350 = Inl ValueError \<and>
   main (source_config\<lparr>CHUNK_OVERLAP_TOKENS := 350, MIN_DOC_TOKENS_SINGLE_CHUNK := 20\<rparr>)
      char_tokenizer plain_csv [(hello_path, hello_text)] = (Some ValueError, [[]]) \<and>
   upload_chunks (source_config\<lparr>CHUNK_OVERLAP_TOKENS := 350, MIN_DOC_TOKENS_SINGLE_CHUNK := 20\<rparr>)
      char_tokenizer sample_credentials rejecting_remote [(hello_path, hello_text)] = (Some ValueError, None)"
proof -
  let ?cfg = "source_config\<lparr>CHUNK_OVERLAP_TOKENS := 350, MIN_DOC_TOKENS_SINGLE_CHUNK := 20\<rparr>"
  have c: "CHUNK_SIZE_TOKENS ?cfg \<le> CHUNK_OVERLAP_TOKENS ?cfg" by (simp add: source_config_def)
  have s: "CHUNK_SIZE_TOKENS ?cfg = 350" "CHUNK_OVERLAP_TOKENS ?cfg = 350"
    by (simp_all add: source_config_def)
  have t: "encode char_tokenizer hello_text \<noteq> []"
    by (simp add: char_tokenizer_def hello_text_def str_def)
  have l: "(hello_path, hello_text) \<in> set [(hello_path, hello_text)] \<and>
      legacy_clean_text (Some hello_text) \<noteq> [] \<and>
      encode char_tokenizer (legacy_clean_text (Some hello_text)) \<noteq> [] \<and>
      MIN_DOC_TOKENS_SINGLE_CHUNK ?cfg
        \<le> int (length (encode char_tokenizer (legacy_clean_text (Some hello_text))))"
    by (simp add: hello_legacy char_tokenizer_def source_config_def) (simp add: str_def)
  have u: "(hello_path, hello_text) \<in> set [(hello_path, hello_text)] \<and>
      upload_clean_text (Some hello_text) \<noteq> [] \<and>
      MIN_WORDS_PER_DOC ?cfg \<le> int (length (split_words (upload_clean_text (Some hello_text)))) \<and>
      encode char_tokenizer (upload_clean_text (Some hello_text)) \<noteq> [] \<and>
      MIN_DOC_TOKENS_SINGLE_CHUNK ?cfg
        \<le> int (length (encode char_tokenizer (upload_clean_text (Some hello_text))))"
    by (simp add: hello_upload hello_words char_tokenizer_def source_config_def) (simp add: str_def)
  note th = nonpositive_step_raises [OF c, of char_tokenizer hello_text hello_path hello_text
      "[(hello_path, hello_text)]" plain_csv sample_credentials rejecting_remote]
  have 1: "split_into_token_chunks char_tokenizer hello_text 350 350 = Inl ValueError"
    using th t s by simp
  have 2: "process_file ?cfg char_tokenizer hello_path hello_text = Inl ValueError"
    using th l by blast
  have 3: "upload_chunks ?cfg char_tokenizer sample_credentials rejecting_remote [(hello_path, hello_text)]
      = (Some ValueError, None)"
    using th u by blast
  have 4: "main ?cfg char_tokenizer plain_csv [(hello_path, hello_text)] = (Some ValueError, [[]])"
    using 2 by (simp add: main_def)
  show ?thesis using 1 3 4 by blast
qed

text \<open>
  The claim fails for the documents below the threshold: they never reach the chunker.
  With overlap and size both 350 and the source's threshold of 220, the run over the one
  short file writes its chunk and ends without an error, on both paths.
\<close>

theorem nonpositive_step_raises_counterexample:
  "CHUNK_SIZE_TOKENS (source_config\<lparr>CHUNK_OVERLAP_TOKENS := 350\<rparr>)
     \<le> CHUNK_OVERLAP_TOKENS (source_config\<lparr>CHUNK_OVERLAP_TOKENS := 350\<rparr>) \<and>
   process_file (source_config\<lparr>CHUNK_OVERLAP_TOKENS := 350\<rparr>) char_tokenizer
      hello_path hello_text = Inr [hello_chunk] \<and>
   main (source_config\<lparr>CHUNK_OVERLAP_TOKENS := 350\<rparr>) char_tokenizer plain_csv
      [(hello_path, hello_text)] = (None, [[hello_chunk]]) \<and>
   generate_chunk_objects_from_file (source_config\<lparr>CHUNK_OVERLAP_TOKENS := 350\<rparr>)
      char_tokenizer hello_path hello_text = Inr [hello_object] \<and>
   upload_chunks (source_config\<lparr>CHUNK_OVERLAP_TOKENS := 350\<rparr>) char_tokenizer
      sample_credentials (\<lambda>objs. []) [(hello_path, hello_text)] = (None, None)"
proof -
  let ?cfg = "source_config\<lparr>CHUNK_OVERLAP_TOKENS := 350\<rparr>"
  have c: "CHUNK_SIZE_TOKENS ?cfg \<le> CHUNK_OVERLAP_TOKENS ?cfg" by (simp add: source_config_def)
  have nl: "int (length (str ''Page 1 of 2 Hello big wide open world.'')) < 220"
    and nu: "int (length (str ''Hello big wide open world.'')) < 220"
    by (simp_all add: str_def)
  have p: "process_file ?cfg char_tokenizer hello_path hello_text = Inr [hello_chunk]"
    using nl by (simp add: process_file_def hello_legacy hello_ids Let_def hello_chunk_def
        source_config_def char_tokenizer_def) (simp add: str_def)
  have g: "generate_chunk_objects_from_file ?cfg char_tokenizer hello_path hello_text
      = Inr [hello_object]"
    using nu by (simp add: generate_chunk_objects_from_file_def hello_upload hello_ids hello_words
        Let_def hello_object_def source_config_def char_tokenizer_def) (simp add: str_def)
  have t: "tell plain_csv [hello_chunk] < MAX_BYTES ?cfg"
    by (simp add: tell_def plain_csv_def hello_chunk_def str_def source_config_def)
  have m: "main ?cfg char_tokenizer plain_csv [(hello_path, hello_text)] = (None, [[hello_chunk]])"
    using t by (simp add: main_def p)
  have u: "upload_chunks ?cfg char_tokenizer sample_credentials (\<lambda>objs. [])
      [(hello_path, hello_text)] = (None, None)"
    by (simp add: upload_chunks_def g persist_failed_def sample_credentials_def falsy_def str_def)
  show ?thesis by (intro conjI) (fact c, fact p, fact m, fact g, fact u)
qed

section \<open>The rotating file writer\<close>






section \<open>Lemmas on the string operations\<close>

subsection \<open>\<open>strip\<close>\<close>

lemma strip_sublist: "sublist (strip s) s"
proof -
  have "suffix (dropWhile isspace (rev (dropWhile isspace s))) (rev (dropWhile isspace s))"
    by (rule suffix_dropWhile)
  then have "prefix (strip s) (dropWhile isspace s)"
    by (simp add: suffix_to_prefix strip_def)
  moreover have "suffix (dropWhile isspace s) s" by (rule suffix_dropWhile)
  ultimately show ?thesis
    by (meson prefix_imp_sublist suffix_imp_sublist sublist_order.order_trans)
qed

lemma set_strip: "set (strip s) \<subseteq> set s"
  using strip_sublist [of s] by (rule set_mono_sublist)

lemma hd_dropWhile_not: "dropWhile P xs \<noteq> [] \<Longrightarrow> \<not> P (hd (dropWhile P xs))"
  by (rule hd_dropWhile)

lemma strip_ends:
  assumes "strip s \<noteq> []"
  shows "\<not> isspace (hd (strip s)) \<and> \<not> isspace (last (strip s))"
proof -
  let ?t = "dropWhile isspace s"
  let ?u = "dropWhile isspace (rev ?t)"
  have u: "?u \<noteq> []" using assms by (simp add: strip_def)
  have t: "?t \<noteq> []"
  proof
    assume a: "?t = []"
    have "?u = []" unfolding a by simp
    then show False using u by blast
  qed
  have l: "\<not> isspace (hd ?u)" using u by (rule hd_dropWhile)
  have "last (strip s) = hd ?u" using u by (simp add: strip_def last_rev)
  then have 1: "\<not> isspace (last (strip s))" using l by simp
  have ht: "\<not> isspace (hd ?t)" using t by (rule hd_dropWhile)
  have "prefix (strip s) ?t"
    using suffix_dropWhile [of isspace "rev ?t"] by (simp add: suffix_to_prefix strip_def)
  then have "hd (strip s) = hd ?t" using assms by (auto simp: prefix_def)
  then show ?thesis using 1 ht by simp
qed

lemma strip_id:
  assumes "s = [] \<or> (\<not> isspace (hd s) \<and> \<not> isspace (last s))"
  shows "strip s = s"
proof (cases "s = []")
  case True
  then show ?thesis by (simp add: strip_def)
next
  case False
  then have h: "\<not> isspace (hd s)" and l: "\<not> isspace (last s)" using assms by auto
  have 1: "dropWhile isspace s = s" using h by (simp add: dropWhile_eq_self_iff)
  have "hd (rev s) = last s" using False by (simp add: hd_rev)
  then have 2: "dropWhile isspace (rev s) = rev s" using l by (simp add: dropWhile_eq_self_iff)
  show ?thesis by (simp add: strip_def 1 2)
qed

subsection \<open>\<open>in\<close>\<close>

lemma contains_sublist: "contains sub s \<longleftrightarrow> sublist sub s"
  by (induction s) (auto simp: sublist_Cons_right)

lemma not_contains_sublist: "\<not> contains sub s \<Longrightarrow> sublist t s \<Longrightarrow> \<not> contains sub t"
  unfolding contains_sublist by (meson sublist_order.order_trans)

subsection \<open>\<open>split\<close> and \<open>join\<close>\<close>

lemma split_on_pieces: "l \<in> set (split_on sep s) \<Longrightarrow> sep \<notin> set l \<and> set l \<subseteq> set s"
proof (induction s arbitrary: l)
  case Nil
  then show ?case by simp
next
  case (Cons c cs)
  show ?case
  proof (cases "c = sep")
    case True
    then show ?thesis using Cons by auto
  next
    case False
    show ?thesis
    proof (cases "split_on sep cs")
      case Nil
      then show ?thesis using Cons False by auto
    next
      case (Cons m ms)
      then have "l = c # m \<or> l \<in> set ms" using Cons.prems False by simp
      moreover have "sep \<notin> set m \<and> set m \<subseteq> set cs" using Cons.IH [of m] Cons by simp
      moreover have "l \<in> set ms \<Longrightarrow> sep \<notin> set l \<and> set l \<subseteq> set cs"
        using Cons.IH [of l] Cons by simp
      ultimately show ?thesis using False by auto
    qed
  qed
qed

lemma set_join: "set (join sep ls) \<subseteq> set sep \<union> \<Union> (set ` set ls)"
  by (induction sep ls rule: join.induct) auto

subsection \<open>\<open>replace\<close>\<close>

lemma replace_ne_absent: "a \<notin> set s \<Longrightarrow> replace_ne (a # old) new s = s"
  by (induction s) auto

lemma replace_absent: "a \<notin> set s \<Longrightarrow> replace (a # old) new s = s"
  by (simp add: replace_def replace_ne_absent)

lemma set_replace_ne: "set (replace_ne old new s) \<subseteq> set s \<union> set new"
proof (induction old new s rule: replace_ne.induct)
  case (1 old new)
  show ?case by simp
next
  case (2 old new c cs)
  show ?case
  proof (cases "old \<noteq> [] \<and> prefix old (c # cs)")
    case True
    have "set (drop (length old) (c # cs)) \<subseteq> set (c # cs)" by (rule set_drop_subset)
    then show ?thesis using True "2.IH"(1) by auto
  next
    case False
    then show ?thesis using "2.IH"(2) by auto
  qed
qed

lemma replace_char_gone:
  assumes "a \<noteq> b"
  shows "a \<notin> set (replace [a] [b] s)"
proof -
  have "a \<notin> set (replace_ne [a] [b] s)"
  proof (induction s)
    case Nil
    show ?case by simp
  next
    case (Cons c cs)
    then show ?case using assms by auto
  qed
  then show ?thesis by (simp add: replace_def)
qed

subsection \<open>The loop on double spaces\<close>

lemma collapse_double_spaces_props:
  "\<not> contains [0x20, 0x20] (collapse_double_spaces t) \<and>
   set (collapse_double_spaces t) \<subseteq> set t"
proof (induction t rule: collapse_double_spaces.induct)
  case (1 t)
  show ?case
  proof (cases "contains [0x20, 0x20] t")
    case True
    have "set (replace [0x20, 0x20] [0x20] t) \<subseteq> set t"
    proof -
      have "(0x20::nat) \<in> set t" using True
        unfolding contains_sublist by (auto simp: sublist_def)
      then show ?thesis using set_replace_ne [of "[0x20, 0x20]" "[0x20]" t]
        by (auto simp: replace_def)
    qed
    then show ?thesis using "1.IH" True by (subst (1 2) collapse_double_spaces.simps) auto
  next
    case False
    then show ?thesis by (subst (1 2) collapse_double_spaces.simps) simp
  qed
qed

lemma collapse_double_spaces_id:
  "\<not> contains [0x20, 0x20] t \<Longrightarrow> collapse_double_spaces t = t"
  by (subst collapse_double_spaces.simps) simp

subsection \<open>The cleaner of the flat-file path\<close>

lemma join_chars: "x \<in> set (join sep ls) \<Longrightarrow> x \<in> set sep \<or> (\<exists>l \<in> set ls. x \<in> set l)"
  by (induction sep ls rule: join.induct) auto

lemma stripped_line_chars:
  assumes "l \<in> set (filter (\<lambda>line. line \<noteq> []) (map strip (split_on sep t)))" and "x \<in> set l"
  shows "x \<in> set t \<and> x \<noteq> sep"
proof -
  from assms(1) have "l \<in> strip ` set (split_on sep t)" by simp
  then obtain m where m: "m \<in> set (split_on sep t)" and l: "l = strip m" by blast
  have "sep \<notin> set m" and "set m \<subseteq> set t" using split_on_pieces [OF m] by blast+
  moreover have "x \<in> set m" using set_strip [of m] l assms(2) by blast
  ultimately show ?thesis by blast
qed

lemma joined_lines_chars:
  assumes "x \<in> set (join [0x20] (filter (\<lambda>line. line \<noteq> []) (map strip (split_on sep t))))"
  shows "x = 0x20 \<or> (x \<in> set t \<and> x \<noteq> sep)"
proof -
  define ls where "ls = filter (\<lambda>line. line \<noteq> []) (map strip (split_on sep t))"
  have "x \<in> set [0x20] \<or> (\<exists>l \<in> set ls. x \<in> set l)"
    using assms unfolding ls_def by (rule join_chars)
  then show ?thesis
  proof
    assume "x \<in> set [0x20]"
    then show ?thesis by simp
  next
    assume "\<exists>l \<in> set ls. x \<in> set l"
    then obtain l where "l \<in> set ls" and "x \<in> set l" by blast
    then show ?thesis using stripped_line_chars [of l sep t x] unfolding ls_def by blast
  qed
qed

lemma legacy_clean_text_clean_line: "clean_line (legacy_clean_text x)"
proof (cases x)
  case None
  then show ?thesis by (simp add: legacy_clean_text_def clean_line_def)
next
  case (Some text0)
  define text1 where "text1 = replace [0x0D] [0x0A] (replace [0x0D, 0x0A] [0x0A] text0)"
  define text2 where
    "text2 = join [0x20] (filter (\<lambda>line. line \<noteq> []) (map strip (split_on 0x0A text1)))"
  define text3 where "text3 = collapse_double_spaces text2"
  have y: "legacy_clean_text x = strip text3"
    by (simp add: Some legacy_clean_text_def Let_def text1_def text2_def text3_def)
  have t1: "0x0D \<notin> set text1" unfolding text1_def by (rule replace_char_gone) simp
  have t2: "0x0A \<notin> set text2 \<and> 0x0D \<notin> set text2"
  proof -
    have "x = 0x20 \<or> (x \<in> set text1 \<and> x \<noteq> 0x0A)" if "x \<in> set text2" for x
      using that unfolding text2_def by (rule joined_lines_chars)
    from this [of "0x0A"] this [of "0x0D"] t1 show ?thesis by auto
  qed
  have t3: "\<not> contains [0x20, 0x20] text3 \<and> set text3 \<subseteq> set text2"
    unfolding text3_def by (rule collapse_double_spaces_props)
  have c: "0x0A \<notin> set (strip text3) \<and> 0x0D \<notin> set (strip text3)"
    using t2 t3 set_strip [of text3] by auto
  have d: "\<not> contains [0x20, 0x20] (strip text3)"
    using t3 strip_sublist [of text3] not_contains_sublist by blast
  show ?thesis unfolding y clean_line_def using c d strip_ends [of text3] by blast
qed

lemma join_filter_single: "join sep (filter (\<lambda>line. line \<noteq> []) [y]) = y"
  by simp

lemma legacy_clean_text_fixed:
  assumes "clean_line y"
  shows "legacy_clean_text (Some y) = y"
proof -
  have n: "0x0A \<notin> set y" and r: "0x0D \<notin> set y" and d: "\<not> contains [0x20, 0x20] y"
    and e: "y = [] \<or> (\<not> isspace (hd y) \<and> \<not> isspace (last y))"
    using assms by (auto simp: clean_line_def)
  have 1: "replace [0x0D] [0x0A] (replace [0x0D, 0x0A] [0x0A] y) = y"
    using r by (simp add: replace_absent)
  have 2: "split_on 0x0A y = [y]" using n by (rule split_on_no_sep)
  have 3: "strip y = y" using e by (rule strip_id)
  show ?thesis
    by (simp only: legacy_clean_text_def option.case Let_def 1 2 list.map 3 join_filter_single
        collapse_double_spaces_id [OF d])
qed

subsection \<open>The cleaner of the upload path\<close>

lemma isspace_space: "isspace 0x20"
  by (simp add: isspace_def)

lemma collapse_whitespace_chars:
  "x \<in> set (collapse_whitespace t) \<Longrightarrow> x = 0x20 \<or> (x \<in> set t \<and> \<not> isspace x)"
proof (induction t rule: collapse_whitespace.induct)
  case 1
  then show ?case by simp
next
  case (2 c cs)
  show ?case
  proof (cases "isspace c")
    case True
    then have "x = 0x20 \<or> x \<in> set (collapse_whitespace (dropWhile isspace cs))"
      using "2.prems" by simp
    then show ?thesis using "2.IH"(1) [OF True] set_dropWhileD [of x isspace cs] by auto
  next
    case False
    then have "x = c \<or> x \<in> set (collapse_whitespace cs)" using "2.prems" by simp
    then show ?thesis using "2.IH"(2) [OF False] False by auto
  qed
qed

lemma collapse_whitespace_hd:
  "t \<noteq> [] \<Longrightarrow> \<not> isspace (hd t) \<Longrightarrow>
     collapse_whitespace t \<noteq> [] \<and> hd (collapse_whitespace t) = hd t"
  by (cases t) simp_all

lemma contains_double_space_Cons:
  "contains [0x20, 0x20] (c # r) \<longleftrightarrow> (c = 0x20 \<and> r \<noteq> [] \<and> hd r = 0x20) \<or> contains [0x20, 0x20] r"
  by (cases r) auto

lemma collapse_whitespace_no_double:
  "\<not> contains [0x20, 0x20] (collapse_whitespace t)"
proof (induction t rule: collapse_whitespace.induct)
  case 1
  show ?case by simp
next
  case (2 c cs)
  show ?case
  proof (cases "isspace c")
    case True
    let ?d = "dropWhile isspace cs"
    have ih: "\<not> contains [0x20, 0x20] (collapse_whitespace ?d)" using "2.IH"(1) [OF True] .
    have "collapse_whitespace ?d = [] \<or> hd (collapse_whitespace ?d) \<noteq> 0x20"
    proof (cases "?d = []")
      case True
      have "collapse_whitespace ?d = []" unfolding True by simp
      then show ?thesis by blast
    next
      case False
      then have n: "\<not> isspace (hd ?d)" by (rule hd_dropWhile)
      then have "hd (collapse_whitespace ?d) = hd ?d"
        using collapse_whitespace_hd [OF False] by blast
      then show ?thesis using n isspace_space by metis
    qed
    then show ?thesis using True ih by (simp add: contains_double_space_Cons del: contains.simps)
  next
    case False
    then have "c \<noteq> 0x20" using isspace_space by metis
    then show ?thesis using False "2.IH"(2) [OF False]
      by (simp add: contains_double_space_Cons del: contains.simps)
  qed
qed

lemma collapse_whitespace_id:
  "\<forall>c \<in> set y. isspace c \<longrightarrow> c = 0x20 \<Longrightarrow> \<not> contains [0x20, 0x20] y \<Longrightarrow>
     collapse_whitespace y = y"
proof (induction y)
  case Nil
  show ?case by simp
next
  case (Cons c cs)
  have nc: "\<not> contains [0x20, 0x20] cs"
    using Cons.prems(2) by (simp add: contains_double_space_Cons del: contains.simps)
  have ih: "collapse_whitespace cs = cs" using Cons.IH Cons.prems(1) nc by simp
  show ?case
  proof (cases "isspace c")
    case True
    then have c: "c = 0x20" using Cons.prems(1) by simp
    have "cs = [] \<or> hd cs \<noteq> 0x20"
      using Cons.prems(2) c by (simp add: contains_double_space_Cons del: contains.simps)
    then have "cs = [] \<or> \<not> isspace (hd cs)" using Cons.prems(1) by (cases cs) auto
    then have "dropWhile isspace cs = cs" by (simp add: dropWhile_eq_self_iff)
    then show ?thesis using True ih c by simp
  next
    case False
    then show ?thesis using ih by simp
  qed
qed

lemma allowed_space: "allowed_char 0x20"
  by (simp add: allowed_char_def isspace_def)

lemma sub_ocr_junk_allowed: "c \<in> set (sub_ocr_junk s) \<Longrightarrow> allowed_char c"
  by (auto simp: sub_ocr_junk_def allowed_space)

lemma space_chars_absent:
  assumes "\<forall>c \<in> set y. isspace c \<longrightarrow> c = 0x20"
  shows "0x0A \<notin> set y" and "0x0D \<notin> set y" and "0x0C \<notin> set y"
proof -
  have s: "isspace 0x0A" "isspace 0x0D" "isspace 0x0C" by (simp_all add: isspace_def)
  have n: "(0x0A::nat) \<noteq> 0x20" "(0x0D::nat) \<noteq> 0x20" "(0x0C::nat) \<noteq> 0x20" by simp_all
  show "0x0A \<notin> set y" using assms s(1) n(1) by blast
  show "0x0D \<notin> set y" using assms s(2) n(2) by blast
  show "0x0C \<notin> set y" using assms s(3) n(3) by blast
qed

lemma sub_ocr_junk_id: "\<forall>c \<in> set y. allowed_char c \<Longrightarrow> sub_ocr_junk y = y"
  by (simp add: sub_ocr_junk_def map_idI)

lemma quotes_not_allowed:
  "\<not> allowed_char 0x2019" "\<not> allowed_char 0x201C" "\<not> allowed_char 0x201D" "\<not> allowed_char 0x22"
  by (simp_all add: allowed_char_def isspace_def)

lemma quotes_replace_id:
  assumes "\<forall>c \<in> set y. allowed_char c"
  shows "replace [0x201D] [0x22] (replace [0x201C] [0x22] (replace [0x2019] [0x27] y)) = y"
proof -
  have "0x2019 \<notin> set y" "0x201C \<notin> set y" "0x201D \<notin> set y"
    using assms quotes_not_allowed by blast+
  then show ?thesis by (simp add: replace_absent)
qed

lemma upload_clean_text_upload_line: "upload_line (upload_clean_text x)"
proof (cases x)
  case None
  then show ?thesis by (simp add: upload_clean_text_def upload_line_def)
next
  case (Some text0)
  define text4 where "text4 = sub_page_marker (join [0x20] (filter (\<lambda>line. line \<noteq> [])
      (map strip (split_on 0x0A (replace [0x0C] [0x20]
        (replace [0x0D] [0x0A] (replace [0x0D, 0x0A] [0x0A] text0)))))))"
  define text5 where "text5 = sub_ocr_junk text4"
  define text7 where "text7 = collapse_whitespace text5"
  have a5: "\<forall>c \<in> set text5. allowed_char c"
    unfolding text5_def using sub_ocr_junk_allowed by blast
  have y: "upload_clean_text x = strip text7"
    by (simp add: Some upload_clean_text_def Let_def text4_def [symmetric] text5_def [symmetric]
        quotes_replace_id [OF a5] text7_def)
  have c7: "allowed_char c \<and> (isspace c \<longrightarrow> c = 0x20)" if "c \<in> set text7" for c
  proof -
    have "c = 0x20 \<or> (c \<in> set text5 \<and> \<not> isspace c)"
      using that unfolding text7_def by (rule collapse_whitespace_chars)
    then show ?thesis using a5 allowed_space by blast
  qed
  have d7: "\<not> contains [0x20, 0x20] text7"
    unfolding text7_def by (rule collapse_whitespace_no_double)
  have 1: "\<forall>c \<in> set (strip text7). allowed_char c \<and> (isspace c \<longrightarrow> c = 0x20)"
    using c7 set_strip [of text7] by blast
  have 2: "\<not> contains [0x20, 0x20] (strip text7)"
    using d7 strip_sublist [of text7] not_contains_sublist by blast
  show ?thesis unfolding y upload_line_def using 1 2 strip_ends [of text7] by blast
qed

lemma upload_line_clean_line: "upload_line y \<Longrightarrow> clean_line y"
proof -
  assume u: "upload_line y"
  then have sp: "\<forall>c \<in> set y. isspace c \<longrightarrow> c = 0x20" unfolding upload_line_def by blast
  have "0x0A \<notin> set y" and "0x0D \<notin> set y" using space_chars_absent [OF sp] by blast+
  then show ?thesis using u unfolding upload_line_def clean_line_def by blast
qed

lemma upload_clean_text_fixed:
  assumes "upload_line y" and "sub_page_marker y = y"
  shows "upload_clean_text (Some y) = y"
proof -
  have a: "\<forall>c \<in> set y. allowed_char c" and sp: "\<forall>c \<in> set y. isspace c \<longrightarrow> c = 0x20"
    and d: "\<not> contains [0x20, 0x20] y"
    and e: "y = [] \<or> (\<not> isspace (hd y) \<and> \<not> isspace (last y))"
    using assms(1) unfolding upload_line_def by blast+
  have n: "0x0A \<notin> set y" and r: "0x0D \<notin> set y" and f: "0x0C \<notin> set y"
    using space_chars_absent [OF sp] by blast+
  have 1: "replace [0x0C] [0x20] (replace [0x0D] [0x0A] (replace [0x0D, 0x0A] [0x0A] y)) = y"
    using r f by (simp add: replace_absent)
  have 2: "split_on 0x0A y = [y]" using n by (rule split_on_no_sep)
  have 3: "strip y = y" using e by (rule strip_id)
  show ?thesis
    by (simp only: upload_clean_text_def option.case Let_def 1 2 list.map 3 join_filter_single
        assms(2) sub_ocr_junk_id [OF a] quotes_replace_id [OF a] collapse_whitespace_id [OF sp d])
qed

section \<open>The cleaners\<close>

text \<open>
  Claim C8. Whatever the input, also \<open>None\<close>, the text that \<open>clean_text\<close> returns has no
  newline (neither a line feed nor a carriage return) and no two spaces in a row, and it
  neither starts nor ends with white space; for the cleaner of the flat-file path and for
  the cleaner of the upload path.
\<close>

theorem clean_text_single_line:
  "0x0A \<notin> set (legacy_clean_text x) \<and> 0x0D \<notin> set (legacy_clean_text x) \<and>
   \<not> contains [0x20, 0x20] (legacy_clean_text x) \<and>
   (legacy_clean_text x \<noteq> [] \<longrightarrow>
      \<not> isspace (hd (legacy_clean_text x)) \<and> \<not> isspace (last (legacy_clean_text x))) \<and>
   0x0A \<notin> set (upload_clean_text x) \<and> 0x0D \<notin> set (upload_clean_text x) \<and>
   \<not> contains [0x20, 0x20] (upload_clean_text x) \<and>
   (upload_clean_text x \<noteq> [] \<longrightarrow>
      \<not> isspace (hd (upload_clean_text x)) \<and> \<not> isspace (last (upload_clean_text x)))"
  using legacy_clean_text_clean_line [of x]
    upload_line_clean_line [OF upload_clean_text_upload_line, of x]
  unfolding clean_line_def by blast

text \<open>The theorem on the short text, whose cleaned forms are not empty.\<close>

theorem clean_text_single_line_witness:
  "legacy_clean_text (Some hello_text) \<noteq> [] \<and>
   \<not> isspace (hd (legacy_clean_text (Some hello_text))) \<and>
   \<not> isspace (last (legacy_clean_text (Some hello_text))) \<and>
   upload_clean_text (Some hello_text) \<noteq> [] \<and>
   \<not> isspace (hd (upload_clean_text (Some hello_text))) \<and>
   \<not> isspace (last (upload_clean_text (Some hello_text)))"
proof -
  have l: "legacy_clean_text (Some hello_text) \<noteq> []" by (simp add: hello_legacy str_def)
  have u: "upload_clean_text (Some hello_text) \<noteq> []" by (simp add: hello_upload str_def)
  show ?thesis using clean_text_single_line [of "Some hello_text"] l u by blast
qed

text \<open>
  Claim C3, as the code has it. The cleaner of the flat-file path is idempotent. The
  cleaner of the upload path gives the same text again whenever its first result holds no
  page marker, that is, when \<open>PAGE_MARKER_PATTERN.sub\<close> leaves that result as it is.
\<close>

theorem clean_text_idempotent:
  "legacy_clean_text (Some (legacy_clean_text x)) = legacy_clean_text x \<and>
   (sub_page_marker (upload_clean_text x) = upload_clean_text x \<longrightarrow>
      upload_clean_text (Some (upload_clean_text x)) = upload_clean_text x)"
  using legacy_clean_text_fixed [OF legacy_clean_text_clean_line, of x]
    upload_clean_text_fixed [OF upload_clean_text_upload_line, of x]
  by blast

text \<open>The theorem on the short text: its cleaned form holds no page marker.\<close>

theorem clean_text_idempotent_witness:
  "sub_page_marker (upload_clean_text (Some hello_text)) = upload_clean_text (Some hello_text) \<and>
   upload_clean_text (Some (upload_clean_text (Some hello_text))) = upload_clean_text (Some hello_text) \<and>
   legacy_clean_text (Some (legacy_clean_text (Some hello_text))) = legacy_clean_text (Some hello_text)"
proof -
  have "sub_page_marker (str ''Hello big wide open world.'') = str ''Hello big wide open world.''"
    by (simp add: clean_ev)
  then have h: "sub_page_marker (upload_clean_text (Some hello_text))
      = upload_clean_text (Some hello_text)"
    by (simp only: hello_upload)
  show ?thesis using clean_text_idempotent [of "Some hello_text"] h by blast
qed

text \<open>
  The cleaner of the upload path is not idempotent. The junk character of \<open>page 1 of #2\<close>
  keeps the page pattern from matching; it becomes a space after the markers were removed,
  so the first result is \<open>page 1 of 2\<close>, which the second pass removes as a page marker.
\<close>

theorem clean_text_idempotent_counterexample:
  "upload_clean_text (Some (str ''page 1 of #2'')) = str ''page 1 of 2'' \<and>
   upload_clean_text (Some (upload_clean_text (Some (str ''page 1 of #2'')))) = []"
proof -
  have 1: "upload_clean_text (Some (str ''page 1 of #2'')) = str ''page 1 of 2''"
    by (simp add: clean_ev)
  have 2: "upload_clean_text (Some (str ''page 1 of 2'')) = []"
    by (simp add: clean_ev)
  show ?thesis by (simp only: 1 2)
qed

text \<open>
  No text cleaned on the upload path holds a double quote, straight or curly, nor the curly
  apostrophe.
\<close>

lemma upload_clean_text_no_quotes:
  "0x22 \<notin> set (upload_clean_text x) \<and> 0x2019 \<notin> set (upload_clean_text x) \<and>
   0x201C \<notin> set (upload_clean_text x) \<and> 0x201D \<notin> set (upload_clean_text x)"
  using upload_clean_text_upload_line [of x] quotes_not_allowed
  unfolding upload_line_def by blast

text \<open>
  Claim C7 fails on the code. The curly quotes are not in the allow-list of
  \<open>OCR_JUNK_PATTERN\<close>, so they are already spaces when the three \<open>replace\<close> calls that
  should make them straight quotes run: \<open>it\<close>, U+2019, \<open>s\<close> is cleaned to \<open>it s\<close>, and a
  word between U+201C and U+201D loses its quotes.
\<close>

theorem curly_quotes_become_spaces:
  "upload_clean_text (Some (str ''it'' @ [0x2019] @ str ''s'')) = str ''it s'' \<and>
   upload_clean_text (Some ([0x201C] @ str ''hi'' @ [0x201D])) = str ''hi''"
  by (simp add: clean_ev)

section \<open>The replay file\<close>












end
